theory Spec2Isabelle
  imports Main "HOL-Library.Sublist" "HOL-Library.AList"
begin

chapter \<open>The incremental synchronisation pipeline of the training.gov.au scraper\<close>

text \<open>
  A shallow embedding of the parts of the scraper that its specification makes claims about:
  the planner inside \<open>syncUnits\<close> (\<open>src/autoSync.ts\<close>), the classification log it
  reads and writes, the retrying \<open>Fetcher\<close> and its caching subclass, the line-delimited
  corpus of \<open>ExportService\<close>, the unit-code extractor and the identity and supersession
  strategies of the HTML parser.

  JavaScript strings are modelled as \<^typ>\<open>string\<close>, numbers that count things as
  \<^typ>\<open>int\<close> or \<^typ>\<open>nat\<close>, a \<open>Map\<close> as a partial function, an array as a list, and
  a thrown exception as the left summand of a sum type.  \<open>new Date().toISOString()\<close> is
  a parameter \<open>now\<close> of the function that reads the clock.
\<close>

section \<open>The classification log and the planner\<close>

subsection \<open>Data\<close>

text \<open>The interface \<open>UnitError\<close> of \<open>autoSync.ts\<close>.\<close>

record UnitError =
  code :: string
  error :: string
  attempts :: int
  lastAttempt :: string

text \<open>
  What \<open>JSON.parse\<close> yields for one entry of the array \<open>errorUnits\<close> of
  \<open>error-log.json\<close>: the fields \<open>attempts\<close> and \<open>lastAttempt\<close> may be missing.
\<close>

record LoggedError =
  le_code :: string
  le_error :: string
  le_attempts :: "int option"
  le_lastAttempt :: "string option"

text \<open>
  An entry of the array \<open>errors\<close> of \<open>error-log.json\<close>, as the \<open>catch\<close> of the
  crawler hands it to \<open>ExportService.logError\<close>: the URL, the class of the error and
  its message.  The stack trace is left out.
\<close>

record LoggedFailure =
  lf_url :: string
  lf_errorType :: string
  lf_message :: string

text \<open>
  The document \<open>error-log.json\<close>.  \<open>saveErrorLog\<close> writes the keys
  \<open>invalidUnits\<close> and \<open>errorUnits\<close>: the entries of \<open>invalidUnits\<close> are pairs of a
  code and a reason (each written with \<open>permanent: true\<close>), the entries of
  \<open>errorUnits\<close> are the pending failures.  \<open>logError\<close> writes the key \<open>errors\<close>.
  A key that the document does not have is the empty list.  The summary counters and the
  timestamp are not read back by any code and are left out.
\<close>

record ErrorLog =
  log_invalidUnits :: "(string \<times> string) list"
  log_errorUnits :: "LoggedError list"
  log_errors :: "LoggedFailure list"

text \<open>The part of \<open>SyncConfig\<close> that the planner reads.\<close>

record SyncConfig =
  sc_maxRetries :: "int option"

subsection \<open>\<open>loadPreviousErrors\<close>\<close>

text \<open>
  \<open>err.attempts || 1\<close> and \<open>err.lastAttempt || new Date().toISOString()\<close>: a missing
  field, the number \<open>0\<close> and the empty string are falsy.
\<close>

definition loadEntry :: "string \<Rightarrow> LoggedError \<Rightarrow> UnitError" where
  "loadEntry now err =
     \<lparr> code = le_code err,
       error = le_error err,
       attempts = (case le_attempts err of None \<Rightarrow> 1 | Some a \<Rightarrow> if a = 0 then 1 else a),
       lastAttempt = (case le_lastAttempt err of None \<Rightarrow> now
                      | Some t \<Rightarrow> if t = [] then now else t) \<rparr>"

text \<open>
  The file is given as \<open>None\<close> when reading or parsing it throws (the \<open>catch\<close> leaves
  the map empty).  Only \<open>errorLog.errorUnits\<close> is read: the loop is the only place of the
  function that fills the map.
\<close>

definition loadPreviousErrors :: "ErrorLog option \<Rightarrow> string \<Rightarrow> (string \<rightharpoonup> UnitError)" where
  "loadPreviousErrors file now =
     (case file of
        None \<Rightarrow> Map.empty
      | Some errorLog \<Rightarrow>
          foldl (\<lambda>errorMap err. errorMap(le_code err \<mapsto> loadEntry now err))
                Map.empty (log_errorUnits errorLog))"

subsection \<open>The planner of \<open>syncUnits\<close>\<close>

text \<open>\<open>const maxRetries = config.maxRetries || 3\<close>.\<close>

definition syncMaxRetries :: "SyncConfig \<Rightarrow> int" where
  "syncMaxRetries config =
     (case sc_maxRetries config of None \<Rightarrow> 3 | Some m \<Rightarrow> if m = 0 then 3 else m)"

text \<open>
  The branch that the body of the loop over \<open>requestedCodes\<close> takes for one code.  The
  source has no list of skipped codes: the two skipping branches only print a line.
\<close>

datatype decision = Skip | Retry | New

definition classify ::
  "(string \<rightharpoonup> string) \<Rightarrow> (string \<rightharpoonup> UnitError) \<Rightarrow> int \<Rightarrow> string \<Rightarrow> decision" where
  "classify existingUnits previousErrors maxR c =
     (if existingUnits c = None then
        (case previousErrors c of
           Some errInfo \<Rightarrow> if attempts errInfo < maxR then Retry else Skip
         | None \<Rightarrow> New)
      else Skip)"

text \<open>
  The state of the loop: the arrays \<open>unitsToScrape\<close> and \<open>unitsToRetry\<close>, and the codes
  for which a skipping line was printed.
\<close>

record plan =
  unitsToScrape :: "string list"
  unitsToRetry :: "string list"
  unitsSkipped :: "string list"

definition planStep ::
  "(string \<rightharpoonup> string) \<Rightarrow> (string \<rightharpoonup> UnitError) \<Rightarrow> int \<Rightarrow> plan \<Rightarrow> string \<Rightarrow> plan" where
  "planStep existingUnits previousErrors maxR p c =
     (case classify existingUnits previousErrors maxR c of
        Retry \<Rightarrow> p\<lparr>unitsToRetry := unitsToRetry p @ [c]\<rparr>
      | New \<Rightarrow> p\<lparr>unitsToScrape := unitsToScrape p @ [c]\<rparr>
      | Skip \<Rightarrow> p\<lparr>unitsSkipped := unitsSkipped p @ [c]\<rparr>)"

definition planUnits ::
  "string list \<Rightarrow> (string \<rightharpoonup> string) \<Rightarrow> (string \<rightharpoonup> UnitError) \<Rightarrow> int \<Rightarrow> plan" where
  "planUnits requestedCodes existingUnits previousErrors maxR =
     foldl (planStep existingUnits previousErrors maxR)
           \<lparr>unitsToScrape = [], unitsToRetry = [], unitsSkipped = []\<rparr> requestedCodes"

text \<open>\<open>const allUnitsToProcess = [...unitsToScrape, ...unitsToRetry]\<close>.\<close>

definition allUnitsToProcess :: "plan \<Rightarrow> string list" where
  "allUnitsToProcess p = unitsToScrape p @ unitsToRetry p"

text \<open>
  The planning prefix of \<open>syncUnits\<close>: the requested codes, the codes of the output
  workbook, the classification log of the previous run, the configuration.
\<close>

definition syncPlan ::
  "string list \<Rightarrow> (string \<rightharpoonup> string) \<Rightarrow> ErrorLog option \<Rightarrow> SyncConfig \<Rightarrow> string \<Rightarrow> plan" where
  "syncPlan requestedCodes existingUnits logFile config now =
     planUnits requestedCodes existingUnits (loadPreviousErrors logFile now)
       (syncMaxRetries config)"

section \<open>Strings\<close>

text \<open>
  A JavaScript string is a sequence of 16-bit code units; here it is a \<^typ>\<open>string\<close>, that
  is, every code unit is below 256.  \<open>s.includes(t)\<close>:
\<close>

fun str_includes :: "string \<Rightarrow> string \<Rightarrow> bool" where
  "str_includes [] t = (t = [])"
| "str_includes (c # s) t = (prefix t (c # s) \<or> str_includes s t)"

text \<open>\<open>s.toLowerCase()\<close> on code units below 256: the letters A-Z and the capitals of Latin-1.\<close>

definition lowerChar :: "char \<Rightarrow> char" where
  "lowerChar c =
     (let n = of_char c :: int in
      if (65 \<le> n \<and> n \<le> 90) \<or> (192 \<le> n \<and> n \<le> 222 \<and> n \<noteq> 215) then char_of (n + 32) else c)"

definition toLowerCase :: "string \<Rightarrow> string" where
  "toLowerCase s = map lowerChar s"

text \<open>The character classes of JavaScript, on code units below 256.\<close>

definition inRange :: "char \<Rightarrow> char \<Rightarrow> char \<Rightarrow> bool" where
  "inRange a b c = ((of_char a :: int) \<le> of_char c \<and> (of_char c :: int) \<le> of_char b)"

definition isDigit :: "char \<Rightarrow> bool" where
  "isDigit c = inRange CHR ''0'' CHR ''9'' c"

definition isUpper :: "char \<Rightarrow> bool" where
  "isUpper c = inRange CHR ''A'' CHR ''Z'' c"

definition isLower :: "char \<Rightarrow> bool" where
  "isLower c = inRange CHR ''a'' CHR ''z'' c"

definition isWordChar :: "char \<Rightarrow> bool" where
  "isWordChar c = (isUpper c \<or> isLower c \<or> isDigit c \<or> c = CHR ''_'')"

text \<open>White space and line terminators: tab, LF, VT, FF, CR, space, no-break space.\<close>

definition isSpace :: "char \<Rightarrow> bool" where
  "isSpace c = (c \<in> set [CHR 0x09, CHR 0x0A, CHR 0x0B, CHR 0x0C, CHR 0x0D, CHR 0x20, CHR 0xA0])"

definition upperAscii :: "char \<Rightarrow> char" where
  "upperAscii c = (if isLower c then char_of ((of_char c :: int) - 32) else c)"

definition lowerAscii :: "char \<Rightarrow> char" where
  "lowerAscii c = (if isUpper c then char_of ((of_char c :: int) + 32) else c)"

text \<open>\<open>s.trim()\<close>.\<close>

definition trim :: "string \<Rightarrow> string" where
  "trim s = rev (dropWhile isSpace (rev (dropWhile isSpace s)))"

text \<open>\<open>[...new Set(xs)]\<close>: the first occurrence of every element, in order.\<close>

fun uniq :: "'a list \<Rightarrow> 'a list" where
  "uniq [] = []"
| "uniq (x # xs) = x # uniq (filter (\<lambda>y. y \<noteq> x) xs)"

section \<open>Thrown values\<close>

text \<open>
  A thrown \<open>Error\<close> object: its \<open>name\<close> and its \<open>message\<close>.  \<open>String(e)\<close> is
  \<open>Error.prototype.toString\<close>.
\<close>

record jsError =
  e_name :: string
  e_message :: string

definition String_of_error :: "jsError \<Rightarrow> string" where
  "String_of_error e =
     (if e_name e = [] then e_message e
      else if e_message e = [] then e_name e
      else e_name e @ '': '' @ e_message e)"

text \<open>\<open>new Error(msg)\<close>.\<close>

definition Error :: "string \<Rightarrow> jsError" where
  "Error msg = \<lparr>e_name = ''Error'', e_message = msg\<rparr>"

text \<open>\<open>e.message || String(e)\<close>, as \<open>classifyError\<close> and \<open>categorizeError\<close> compute it.\<close>

definition messageOf :: "jsError \<Rightarrow> string" where
  "messageOf e = (if e_message e \<noteq> [] then e_message e else String_of_error e)"

section \<open>Regular expressions\<close>

text \<open>
  The regular expressions of the source as syntax trees, with a backtracking matcher that
  returns the ways to match in the order in which the engine of JavaScript tries them.
  The fragment is the one that the modelled expressions use: a class or escape for one
  character, literal text, a greedy quantifier on a class, the assertions \<open>^\<close>, \<open>$\<close>
  (without the flag \<open>m\<close>) and \<open>\b\<close>, a capturing group, and concatenation.
\<close>

datatype atom = Rng char char | Chr char | Dgt | Wrd | Spc

datatype single = Cls "atom list" | Dot

datatype regex =
    Eps
  | One single
  | Str string
  | Rep single nat "nat option"
  | Bol
  | Eol
  | WordB
  | Group nat regex
  | Then regex regex

fun seq :: "regex list \<Rightarrow> regex" where
  "seq [] = Eps"
| "seq [r] = r"
| "seq (r # rs) = Then r (seq rs)"

fun atom_mem :: "atom \<Rightarrow> char \<Rightarrow> bool" where
  "atom_mem (Rng a b) c = inRange a b c"
| "atom_mem (Chr a) c = (c = a)"
| "atom_mem Dgt c = isDigit c"
| "atom_mem Wrd c = isWordChar c"
| "atom_mem Spc c = isSpace c"

text \<open>
  With the flag \<open>i\<close> a character matches when it or its other case is in the class.  A
  dot matches everything but a line terminator.
\<close>

fun single_mem :: "bool \<Rightarrow> single \<Rightarrow> char \<Rightarrow> bool" where
  "single_mem ic Dot c = (c \<noteq> CHR 0x0A \<and> c \<noteq> CHR 0x0D)"
| "single_mem ic (Cls as) c =
     list_ex (\<lambda>a. atom_mem a c \<or> (ic \<and> (atom_mem a (upperAscii c) \<or> atom_mem a (lowerAscii c)))) as"

text \<open>
  A state of the matcher: the position in the subject and the groups captured so far, the
  latest first, each with its start and end.
\<close>

type_synonym mstate = "nat \<times> (nat \<times> nat \<times> nat) list"

definition wordAt :: "string \<Rightarrow> nat \<Rightarrow> bool" where
  "wordAt s i = (i < length s \<and> isWordChar (s ! i))"

fun rmatch :: "bool \<Rightarrow> regex \<Rightarrow> string \<Rightarrow> mstate \<Rightarrow> mstate list" where
  "rmatch ic Eps s st = [st]"
| "rmatch ic (One c) s (i, cs) =
     (if i < length s \<and> single_mem ic c (s ! i) then [(i + 1, cs)] else [])"
| "rmatch ic (Str t) s (i, cs) =
     (if (if ic then map upperAscii (take (length t) (drop i s)) = map upperAscii t
          else take (length t) (drop i s) = t)
      then [(i + length t, cs)] else [])"
| "rmatch ic (Rep c lo hi) s (i, cs) =
     (let n = length (takeWhile (single_mem ic c) (drop i s));
          m = (case hi of None \<Rightarrow> n | Some h \<Rightarrow> min n h)
      in map (\<lambda>k. (i + k, cs)) (rev [lo ..< m + 1]))"
| "rmatch ic Bol s (i, cs) = (if i = 0 then [(i, cs)] else [])"
| "rmatch ic Eol s (i, cs) = (if i = length s then [(i, cs)] else [])"
| "rmatch ic WordB s (i, cs) =
     (if (0 < i \<and> wordAt s (i - 1)) \<noteq> wordAt s i then [(i, cs)] else [])"
| "rmatch ic (Group g r) s (i, cs) =
     map (\<lambda>(j, cs'). (j, (g, i, j) # cs')) (rmatch ic r s (i, cs))"
| "rmatch ic (Then r1 r2) s st = concat (map (rmatch ic r2 s) (rmatch ic r1 s st))"

text \<open>
  \<open>RegExp.prototype.exec\<close> from a start index: the first position at which the
  expression matches, with the first way to match there.  A match is its start, its end
  and its groups.
\<close>

type_synonym rmatched = "nat \<times> nat \<times> (nat \<times> nat \<times> nat) list"

definition rexecFrom :: "bool \<Rightarrow> regex \<Rightarrow> string \<Rightarrow> nat \<Rightarrow> rmatched option" where
  "rexecFrom ic r s p =
     (case List.find (\<lambda>i. rmatch ic r s (i, []) \<noteq> []) [p ..< length s + 1] of
        None \<Rightarrow> None
      | Some i \<Rightarrow> (case hd (rmatch ic r s (i, [])) of (e, cs) \<Rightarrow> Some (i, e, cs)))"

definition rexec :: "bool \<Rightarrow> regex \<Rightarrow> string \<Rightarrow> rmatched option" where
  "rexec ic r s = rexecFrom ic r s 0"

definition rtest :: "bool \<Rightarrow> regex \<Rightarrow> string \<Rightarrow> bool" where
  "rtest ic r s = (rexec ic r s \<noteq> None)"

text \<open>
  \<open>m[g]\<close>, the text of a group.  In every expression modelled here each group takes part
  in every match; for a group that does not, the function gives the empty string.
\<close>

definition groupText :: "string \<Rightarrow> rmatched \<Rightarrow> nat \<Rightarrow> string" where
  "groupText s m g =
     (case List.find (\<lambda>(g', a, b). g' = g) (snd (snd m)) of
        None \<Rightarrow> []
      | Some (g', a, b) \<Rightarrow> take (b - a) (drop a s))"

text \<open>
  The matches of a global expression (\<open>matchAll\<close>, or \<open>match\<close> with the flag \<open>g\<close>):
  the search resumes at the end of the previous match, one further after an empty match.
  (A match found from \<open>p\<close> starts at \<open>p\<close> or later and ends at its start or later,
  so the guard below holds exactly for an empty match, and \<open>max a p\<close> is \<open>a\<close>.)
\<close>

function matchAllFrom :: "bool \<Rightarrow> regex \<Rightarrow> string \<Rightarrow> nat \<Rightarrow> rmatched list" where
  "matchAllFrom ic r s p =
     (if length s < p then []
      else case rexecFrom ic r s p of
             None \<Rightarrow> []
           | Some (a, e, cs) \<Rightarrow>
               (a, e, cs) # matchAllFrom ic r s (if e \<le> a \<or> e \<le> p then max a p + 1 else e))"
  by pat_completeness auto
termination
  by (relation "measure (\<lambda>(ic, r, s, p). length s + 1 - p)") auto

definition matchAll :: "bool \<Rightarrow> regex \<Rightarrow> string \<Rightarrow> rmatched list" where
  "matchAll ic r s = matchAllFrom ic r s 0"

section \<open>The identifier extractor (\<open>autoSync.ts\<close>)\<close>

text \<open>
  \<open>s.toUpperCase()\<close>: the letters a-z and the small letters of Latin-1 whose capital is
  a code unit below 256; the sharp s becomes \<open>SS\<close>.  The micro sign and the y with
  diaeresis, whose capitals are not below 256, are left as they are (neither they nor their
  capitals occur in a word of ASCII letters).
\<close>

definition upperChar :: "char \<Rightarrow> string" where
  "upperChar c =
     (let n = of_char c :: int in
      if c = CHR 0xDF then ''SS''
      else if (97 \<le> n \<and> n \<le> 122) \<or> (224 \<le> n \<and> n \<le> 254 \<and> n \<noteq> 247) then [char_of (n - 32)]
      else [c])"

definition toUpperCase :: "string \<Rightarrow> string" where
  "toUpperCase s = concat (map upperChar s)"

text \<open>\<open>/^[A-Z]{2,4}/\<close>\<close>

definition startPattern :: regex where
  "startPattern = seq [Bol, Rep (Cls [Rng CHR ''A'' CHR ''Z'']) 2 (Some 4)]"

text \<open>\<open>/\d/g\<close>\<close>

definition digitPattern :: regex where
  "digitPattern = One (Cls [Dgt])"

text \<open>\<open>/^[A-Z]{2,4}[A-Z0-9]*\d+[A-Z]?$/i\<close>\<close>

definition validPattern :: regex where
  "validPattern =
     seq [Bol, Rep (Cls [Rng CHR ''A'' CHR ''Z'']) 2 (Some 4),
          Rep (Cls [Rng CHR ''A'' CHR ''Z'', Rng CHR ''0'' CHR ''9'']) 0 None,
          Rep (Cls [Dgt]) 1 None,
          Rep (Cls [Rng CHR ''A'' CHR ''Z'']) 0 (Some 1), Eol]"

definition excludeList :: "string list" where
  "excludeList =
     [''SCUBA'', ''HACCP'', ''HACC'', ''TAFE'', ''CERT'', ''DIPLOMA'', ''ADVANCED'',
      ''STATEMENT'', ''QUALIFICATION'', ''TRAINING'', ''EDUCATION'',
      ''SKILLS'', ''COMPETENCY'', ''ASSESSMENT'', ''EVIDENCE'']"

definition isValidUnitCode :: "string \<Rightarrow> bool" where
  "isValidUnitCode c =
     (if length c < 6 \<or> 12 < length c then False
      else if rexec False startPattern c = None then False
      else if length (matchAll False digitPattern c) < 3 then False
      else if toUpperCase c \<in> set excludeList then False
      else rexec True validPattern c \<noteq> None)"

text \<open>\<open>/\b([A-Z]{2,4}[A-Z0-9]{3,10})\b/g\<close>\<close>

definition unitCodePattern :: regex where
  "unitCodePattern =
     seq [WordB,
          Group 1 (seq [Rep (Cls [Rng CHR ''A'' CHR ''Z'']) 2 (Some 4),
                        Rep (Cls [Rng CHR ''A'' CHR ''Z'', Rng CHR ''0'' CHR ''9'']) 3 (Some 10)]),
          WordB]"

text \<open>
  A cell as \<open>sheet_to_json\<close> delivers it: a string, or a value of another type.  A row is
  the list of its columns with their cells, in the order of \<open>Object.values\<close>; a workbook
  is the list of its sheets.
\<close>

datatype cell = CString string | CNumber int | CBoolean bool | COther

type_synonym row = "(string \<times> cell) list"

type_synonym workbook = "(string \<times> row list) list"

text \<open>
  \<open>columnName ? [row[columnName]] : Object.values(row)\<close>; a missing column is
  \<open>undefined\<close>, which the test \<open>cellValue && typeof cellValue === 'string'\<close> rejects
  like the empty string and every value that is not a string.
\<close>

definition columnsOf :: "string \<Rightarrow> row \<Rightarrow> cell list" where
  "columnsOf columnName r =
     (if columnName \<noteq> [] then (case map_of r columnName of None \<Rightarrow> [] | Some v \<Rightarrow> [v])
      else map snd r)"

fun cellCodes :: "cell \<Rightarrow> string list" where
  "cellCodes (CString cellValue) =
     (if cellValue = [] then []
      else filter isValidUnitCode
             (map (\<lambda>m. groupText cellValue m 1) (matchAll False unitCodePattern cellValue)))"
| "cellCodes other = []"

text \<open>
  \<open>readUnitCodesFromExcel\<close>.  The workbook is \<open>None\<close> when the file cannot be
  accessed; then the function throws.
\<close>

definition readUnitCodesFromExcel :: "workbook option \<Rightarrow> string \<Rightarrow> jsError + string list" where
  "readUnitCodesFromExcel file columnName =
     (case file of
        None \<Rightarrow> Inl (Error ''Input Excel file not found'')
      | Some wb \<Rightarrow>
          Inr (uniq (concat (map (\<lambda>(sheetName, rows).
                 concat (map (\<lambda>r. concat (map cellCodes (columnsOf columnName r))) rows)) wb))))"

text \<open>
  The token grammar in the words of the specification: 2 to 4 leading uppercase letters,
  followed by an alphanumeric body with at least 3 digits, a total length of 6 to 12, and
  at the end a digit or one letter after a digit.
\<close>

definition isAlpha :: "char \<Rightarrow> bool" where
  "isAlpha c = (isUpper c \<or> isLower c)"

definition isAlnum :: "char \<Rightarrow> bool" where
  "isAlnum c = (isUpper c \<or> isLower c \<or> isDigit c)"

definition spec_tokenGrammar :: "string \<Rightarrow> bool" where
  "spec_tokenGrammar c =
     (6 \<le> length c \<and> length c \<le> 12
      \<and> list_ex (\<lambda>k. list_all isUpper (take k c) \<and> list_all isAlnum (drop k c)
                     \<and> 3 \<le> length (filter isDigit (drop k c))) [2, 3, 4]
      \<and> (isDigit (last c) \<or> (isAlpha (last c) \<and> isDigit (c ! (length c - 2)))))"

text \<open>The input of scenario A of the specification: one sheet, one column, three cells.\<close>

definition scenarioA :: workbook where
  "scenarioA =
     [(''Sheet1'', [[(''Unit Code'', CString ''MARA022'')],
                    [(''Unit Code'', CString ''SCUBA'')],
                    [(''Unit Code'', CString ''HLTAID011'')]])]"

section \<open>The fetch engine\<close>

subsection \<open>\<open>classifyError\<close> (\<open>utils/logger.ts\<close>)\<close>

datatype ErrorType = NETWORK | TIMEOUT | PARSE | UNKNOWN

fun ErrorType_string :: "ErrorType \<Rightarrow> string" where
  "ErrorType_string NETWORK = ''NETWORK''"
| "ErrorType_string TIMEOUT = ''TIMEOUT''"
| "ErrorType_string PARSE = ''PARSE''"
| "ErrorType_string UNKNOWN = ''UNKNOWN''"

text \<open>The argument is \<open>None\<close> for \<open>undefined\<close>, which is falsy; an object is truthy.\<close>

definition classifyError :: "jsError option \<Rightarrow> ErrorType" where
  "classifyError e =
     (case e of
        None \<Rightarrow> UNKNOWN
      | Some err \<Rightarrow>
          (let msg = toLowerCase (messageOf err) in
           if str_includes msg ''timed out'' \<or> str_includes msg ''timeout'' then TIMEOUT
           else if str_includes msg ''net::err'' \<or> str_includes msg ''econn''
                   \<or> str_includes msg ''socket'' \<or> str_includes msg ''epipe'' then NETWORK
           else if str_includes msg ''parse'' \<or> str_includes msg ''json'' then PARSE
           else UNKNOWN))"

subsection \<open>\<open>Fetcher\<close>\<close>

text \<open>
  What a fetcher does to the outside world, in order: the call of \<open>ensurePoliteDelay\<close>
  at the start of \<open>get(url)\<close> (how long it sleeps depends on the wall clock), a page load \<open>page.goto(url)\<close> together
  with the number of the attempt, and the sleep \<open>sleep(backoff)\<close> between two attempts.
\<close>

datatype event = PoliteDelay string | Goto string nat | Backoff nat

text \<open>
  The fields of a \<open>Fetcher\<close> that \<open>get\<close> reads, and the events so far.  The browser
  session is taken to start; the failures of a \<open>get\<close> are those of the \<open>try\<close> block.
\<close>

record Fetcher =
  minDelayMs :: nat
  maxRetries :: nat
  backoffMs :: nat
  trace :: "event list"

record FetcherOptions =
  o_minDelayMs :: "nat option"
  o_maxRetries :: "nat option"
  o_backoffMs :: "nat option"

text \<open>The constructor: \<open>opts?.maxRetries ?? 3\<close> and so on.\<close>

definition newFetcher :: "FetcherOptions option \<Rightarrow> Fetcher" where
  "newFetcher opts =
     \<lparr> minDelayMs = (case Option.bind opts o_minDelayMs of None \<Rightarrow> 1500 | Some v \<Rightarrow> v),
       maxRetries = (case Option.bind opts o_maxRetries of None \<Rightarrow> 3 | Some v \<Rightarrow> v),
       backoffMs = (case Option.bind opts o_backoffMs of None \<Rightarrow> 750 | Some v \<Rightarrow> v),
       trace = [] \<rparr>"

definition emit :: "'a Fetcher_scheme \<Rightarrow> event \<Rightarrow> 'a Fetcher_scheme" where
  "emit f ev = f\<lparr>trace := trace f @ [ev]\<rparr>"

text \<open>
  The \<open>while\<close> loop of \<open>get\<close>.  \<open>page k\<close> is what the body of the \<open>try\<close> does at the
  attempt number \<open>k\<close>: it yields the rendered HTML or throws.
\<close>

function getLoop ::
  "'a Fetcher_scheme \<Rightarrow> string \<Rightarrow> (nat \<Rightarrow> jsError + string) \<Rightarrow> nat \<Rightarrow> jsError option
     \<Rightarrow> 'a Fetcher_scheme \<times> (jsError option + string)" where
  "getLoop f url page attempt lastErr =
     (if attempt < maxRetries f then
        (let attempt' = attempt + 1;
             f1 = emit f (Goto url attempt')
         in case page attempt' of
              Inr html \<Rightarrow> (f1, Inr html)
            | Inl err \<Rightarrow>
                getLoop (if attempt' < maxRetries f1
                         then emit f1 (Backoff (backoffMs f1 * attempt')) else f1)
                  url page attempt' (Some err))
      else (f, Inl lastErr))"
  by pat_completeness auto
termination
  by (relation "measure (\<lambda>(f, url, page, attempt, lastErr). maxRetries f - attempt)")
     (auto simp: emit_def)

text \<open>
  After the loop: \<open>lastErr?.message || String(lastErr) || 'Unknown error'\<close>, where
  \<open>String(undefined)\<close> is the text \<open>undefined\<close>.
\<close>

definition errMsg :: "jsError option \<Rightarrow> string" where
  "errMsg lastErr =
     (case lastErr of
        None \<Rightarrow> ''undefined''
      | Some e \<Rightarrow>
          if e_message e \<noteq> [] then e_message e
          else if String_of_error e \<noteq> [] then String_of_error e
          else ''Unknown error'')"

definition Fetcher_get ::
  "'a Fetcher_scheme \<Rightarrow> string \<Rightarrow> (nat \<Rightarrow> jsError + string)
     \<Rightarrow> 'a Fetcher_scheme \<times> (jsError + string)" where
  "Fetcher_get f url page =
     (case getLoop (emit f (PoliteDelay url)) url page 0 None of
        (f', Inr html) \<Rightarrow> (f', Inr html)
      | (f', Inl lastErr) \<Rightarrow>
          (f', Inl (Error (''FetchFailed:'' @ ErrorType_string (classifyError lastErr)
                            @ '':'' @ errMsg lastErr))))"

text \<open>
  The events of the attempt number \<open>k\<close> when it fails, for a fetcher with base backoff
  \<open>b\<close> and \<open>n\<close> attempts: the page load, then the sleep of \<open>b * k\<close> unless it was the
  last attempt.  \<open>gotoCount\<close> counts the page loads of a trace.
\<close>

definition attemptEvents :: "string \<Rightarrow> nat \<Rightarrow> nat \<Rightarrow> nat \<Rightarrow> event list" where
  "attemptEvents url b n k = Goto url k # (if k < n then [Backoff (b * k)] else [])"

definition gotoCount :: "event list \<Rightarrow> nat" where
  "gotoCount tr = length (filter (\<lambda>ev. case ev of Goto u k \<Rightarrow> True | _ \<Rightarrow> False) tr)"

subsection \<open>\<open>CachedFetcher\<close> (\<open>autoSync.ts\<close>)\<close>

record CachedFetcher = Fetcher +
  cache :: "string \<rightharpoonup> string"

definition setCache :: "CachedFetcher \<Rightarrow> string \<Rightarrow> string \<Rightarrow> CachedFetcher" where
  "setCache f url html = f\<lparr>cache := (cache f)(url \<mapsto> html)\<rparr>"

definition CachedFetcher_get ::
  "CachedFetcher \<Rightarrow> string \<Rightarrow> (nat \<Rightarrow> jsError + string) \<Rightarrow> CachedFetcher \<times> (jsError + string)" where
  "CachedFetcher_get f url page =
     (case cache f url of
        Some html \<Rightarrow> (f, Inr html)
      | None \<Rightarrow> Fetcher_get f url page)"

text \<open>\<open>new CachedFetcher({minDelayMs: 1000, headless: true, timeout: 30000})\<close>.\<close>

definition newCachedFetcher :: "FetcherOptions option \<Rightarrow> CachedFetcher" where
  "newCachedFetcher opts = Fetcher.extend (newFetcher opts) \<lparr>cache = Map.empty\<rparr>"

text \<open>
  The operations that the callers perform on one \<open>CachedFetcher\<close>, and a sequence of
  them run in order (the results of the calls of \<open>get\<close> are dropped).
\<close>

datatype fetcherOp = OpGet string "nat \<Rightarrow> jsError + string" | OpSetCache string string

fun applyOp :: "CachedFetcher \<Rightarrow> fetcherOp \<Rightarrow> CachedFetcher" where
  "applyOp f (OpGet url page) = fst (CachedFetcher_get f url page)"
| "applyOp f (OpSetCache url html) = setCache f url html"

definition applyOps :: "CachedFetcher \<Rightarrow> fetcherOp list \<Rightarrow> CachedFetcher" where
  "applyOps f ops = foldl applyOp f ops"

section \<open>The validation phase of \<open>syncUnits\<close>\<close>

text \<open>
  The mutable variables of \<open>syncUnits\<close> after planning.  \<open>errorUnits\<close> is a \<open>Map\<close>
  whose values are later listed in insertion order, hence an association list:
  \<^const>\<open>AList.update\<close> replaces the value of a key in place and appends a new key, as
  \<open>Map.prototype.set\<close> does.
\<close>

record syncState =
  validUnits :: "string list"
  invalidUnits :: "(string \<times> string) list"
  errorUnits :: "(string \<times> UnitError) list"
  fetcher :: CachedFetcher

definition unitUrl :: "string \<Rightarrow> string" where
  "unitUrl c = ''https://training.gov.au/training/details/'' @ c @ ''/unitdetails''"

text \<open>
  \<open>categorizeError\<close>.  \<open>previousErrors.get(code) || errorUnits.get(code)\<close> takes the
  first entry when there is one (an object is truthy);
  \<open>(existingError?.attempts || 0) + 1\<close> counts from 0 when there is none.
\<close>

definition categorizeError ::
  "(string \<rightharpoonup> UnitError) \<Rightarrow> string \<Rightarrow> syncState \<Rightarrow> string \<Rightarrow> jsError \<Rightarrow> syncState" where
  "categorizeError previousErrors now st c err =
     (let errorMsg = messageOf err;
          existingError = (case previousErrors c of
                             Some e \<Rightarrow> Some e
                           | None \<Rightarrow> map_of (errorUnits st) c);
          n = (case existingError of
                 None \<Rightarrow> 0
               | Some e \<Rightarrow> if attempts e = 0 then 0 else attempts e) + 1
      in if str_includes errorMsg ''404'' \<or> str_includes errorMsg ''not found''
         then st\<lparr>invalidUnits := invalidUnits st @ [(c, ''404 - Unit not found'')]\<rparr>
         else st\<lparr>errorUnits :=
                   AList.update c \<lparr>code = c, error = errorMsg, attempts = n, lastAttempt = now\<rparr>
                     (errorUnits st)\<rparr>)"

text \<open>
  The callback that validates one code.  \<open>net url k\<close> is what the attempt number
  \<open>k\<close> of loading \<open>url\<close> does.  The callbacks of a batch run under \<open>Promise.all\<close>;
  the model runs them one after the other, in the order of the queue.
\<close>

definition checkUnit ::
  "(string \<rightharpoonup> UnitError) \<Rightarrow> (string \<Rightarrow> nat \<Rightarrow> jsError + string) \<Rightarrow> string
     \<Rightarrow> syncState \<Rightarrow> string \<Rightarrow> syncState" where
  "checkUnit previousErrors net now st c =
     (let url = unitUrl c in
      case CachedFetcher_get (fetcher st) url (net url) of
        (f, Inr html) \<Rightarrow>
          if str_includes html ''Unit of competency'' \<or> str_includes html ''Performance Criteria''
             \<or> str_includes html ''Performance evidence''
          then st\<lparr>validUnits := validUnits st @ [c], fetcher := setCache f url html\<rparr>
          else if str_includes html ''404'' \<or> str_includes html ''not found''
          then st\<lparr>invalidUnits := invalidUnits st @ [(c, ''Unit does not exist (404)'')],
                  fetcher := f\<rparr>
          else st\<lparr>invalidUnits := invalidUnits st @ [(c, ''No unit content detected'')],
                  fetcher := f\<rparr>
      | (f, Inl err) \<Rightarrow> categorizeError previousErrors now (st\<lparr>fetcher := f\<rparr>) c err)"

text \<open>
  The state before the first batch, with the fetcher that \<open>syncUnits\<close> constructs, and the
  loop over \<open>allUnitsToProcess\<close>.
\<close>

definition initialSyncState :: syncState where
  "initialSyncState =
     \<lparr> validUnits = [], invalidUnits = [], errorUnits = [],
       fetcher = newCachedFetcher
                   (Some \<lparr>o_minDelayMs = Some 1000, o_maxRetries = None, o_backoffMs = None\<rparr>) \<rparr>"

definition validateUnits ::
  "(string \<rightharpoonup> UnitError) \<Rightarrow> (string \<Rightarrow> nat \<Rightarrow> jsError + string) \<Rightarrow> string
     \<Rightarrow> syncState \<Rightarrow> string list \<Rightarrow> syncState" where
  "validateUnits previousErrors net now st queue = foldl (checkUnit previousErrors net now) st queue"

text \<open>
  \<open>saveErrorLog\<close>: the document written to \<open>error-log.json\<close> after validation.  It
  replaces the file, so the new document has no key \<open>errors\<close>.
\<close>

definition saveErrorLog :: "syncState \<Rightarrow> ErrorLog" where
  "saveErrorLog st =
     \<lparr> log_invalidUnits = invalidUnits st,
       log_errorUnits =
         map (\<lambda>(k, u). \<lparr>le_code = code u, le_error = error u,
                         le_attempts = Some (attempts u),
                         le_lastAttempt = Some (lastAttempt u)\<rparr>) (errorUnits st),
       log_errors = [] \<rparr>"

section \<open>The record corpus (\<open>models/uoc.ts\<close>, \<open>services/exportService.ts\<close>)\<close>

subsection \<open>The competency record\<close>

record UocElement =
  element :: string
  performanceCriteria :: "string list"

record UocSection =
  heading :: string
  level :: nat
  paragraphs :: "string list"
  lists :: "string list list"

text \<open>The type \<open>{ code: string; url: string }\<close> of a supersession link.\<close>

record UnitRef =
  ref_code :: string
  ref_url :: string

text \<open>
  The interface \<open>Uoc\<close>.  A field marked \<open>?\<close> in the source, or of a type with
  \<open>| null\<close>, is an option.
\<close>

record Uoc =
  u_url :: string
  u_code :: string
  u_title :: string
  u_status :: "string option"
  u_release :: "string option"
  u_application :: "string option"
  u_unitSector :: "string option"
  u_licensingOrRegulatoryInfo :: "string option"
  u_prerequisites :: "string list option"
  u_elements :: "UocElement list option"
  u_foundationSkills :: "string option"
  u_assessmentConditions :: "string option"
  u_performanceEvidence :: "string option"
  u_knowledgeEvidence :: "string option"
  u_description :: "string option"
  u_supersededBy :: "UnitRef option"
  u_supersedes :: "UnitRef option"
  u_sections :: "UocSection list option"
  u_lastFetchedAt :: string

subsection \<open>The files\<close>

text \<open>
  The file \<open>uoc.jsonl\<close> is the list of its lines that are not blank, as
  \<open>content.trim().split('\n').filter(Boolean)\<close> reads them from a file in which every
  line ends with a newline, and as \<open>lines.join('\n') + '\n'\<close> and
  \<open>JSON.stringify(item) + "\n"\<close> write them.  A line is seen through \<open>JSON.parse\<close>:
  \<open>UnitLine u\<close> is a line that parses to an object whose \<open>code\<close> is the string
  \<open>u_code u\<close> (for a line that the program wrote, \<open>u\<close> is the record written);
  \<open>OtherLine\<close> is any other line, on which \<open>init\<close> adds no string to
  \<open>existingCodes\<close> and which \<open>removeUnit\<close> keeps.
\<close>

datatype jsonlLine = UnitLine Uoc | OtherLine string

text \<open>
  The directory \<open>outDir\<close>: \<open>uoc.jsonl\<close> (\<open>None\<close> when the file does not exist) and
  the files \<open>units/<code>.json\<close> by code.  Reading and writing an existing file is
  taken to succeed.
\<close>

record disk =
  jsonl :: "jsonlLine list option"
  unitFiles :: "string \<rightharpoonup> Uoc"

record ExportService =
  existingCodes :: "string set"

text \<open>\<open>new ExportService(outDir)\<close>\<close>

definition newExportService :: ExportService where
  "newExportService = \<lparr>existingCodes = {}\<rparr>"

text \<open>
  \<open>init\<close>: \<open>if (unit.code) this.existingCodes.add(unit.code)\<close> for every line that
  parses; the empty string is falsy.  A missing file is created empty.
\<close>

definition trackLine :: "string set \<Rightarrow> jsonlLine \<Rightarrow> string set" where
  "trackLine codes line =
     (case line of
        UnitLine unit \<Rightarrow> if u_code unit \<noteq> [] then insert (u_code unit) codes else codes
      | OtherLine l \<Rightarrow> codes)"

definition init :: "ExportService \<times> disk \<Rightarrow> ExportService \<times> disk" where
  "init ed =
     (case ed of (e, d) \<Rightarrow>
        (case jsonl d of
           Some ls \<Rightarrow> (e\<lparr>existingCodes := foldl trackLine (existingCodes e) ls\<rparr>, d)
         | None \<Rightarrow> (e, d\<lparr>jsonl := Some []\<rparr>)))"

text \<open>
  \<open>removeUnit\<close>: the lines whose \<open>code\<close> differs from the code are kept, and so are
  the lines that do not parse.  When the file does not exist \<open>readFile\<close> throws and the
  \<open>catch\<close> logs a warning.
\<close>

definition keepLine :: "string \<Rightarrow> jsonlLine \<Rightarrow> bool" where
  "keepLine c line = (case line of UnitLine unit \<Rightarrow> u_code unit \<noteq> c | OtherLine l \<Rightarrow> True)"

definition removeUnit :: "disk \<Rightarrow> string \<Rightarrow> disk" where
  "removeUnit d c =
     (case jsonl d of
        Some ls \<Rightarrow> d\<lparr>jsonl := Some (filter (keepLine c) ls)\<rparr>
      | None \<Rightarrow> d)"

text \<open>\<open>writeJsonl\<close>; \<open>appendFile\<close> creates a missing file.\<close>

definition writeJsonl :: "ExportService \<times> disk \<Rightarrow> Uoc \<Rightarrow> ExportService \<times> disk" where
  "writeJsonl ed item =
     (case ed of (e, d) \<Rightarrow>
        (let d1 = (if u_code item \<in> existingCodes e then removeUnit d (u_code item) else d);
             d2 = d1\<lparr>jsonl := Some ((case jsonl d1 of None \<Rightarrow> [] | Some ls \<Rightarrow> ls)
                                     @ [UnitLine item])\<rparr>
         in (e\<lparr>existingCodes := insert (u_code item) (existingCodes e)\<rparr>,
             d2\<lparr>unitFiles := (unitFiles d2)(u_code item \<mapsto> item)\<rparr>)))"

text \<open>
  \<open>logError\<close>: the document of \<open>error-log.json\<close> is read (a file that is missing,
  empty or not JSON leaves the fresh payload, which has the key \<open>errors\<close> only), the
  entry is pushed onto \<open>errors\<close>, the last 500 entries are kept and the document is
  written back with its other keys as they were.
\<close>

definition logError :: "ErrorLog option \<Rightarrow> LoggedFailure \<Rightarrow> ErrorLog option" where
  "logError file entry =
     (let payload = (case file of
                       None \<Rightarrow> \<lparr>log_invalidUnits = [], log_errorUnits = [], log_errors = []\<rparr>
                     | Some existing \<Rightarrow> existing);
          errors = log_errors payload @ [entry]
      in Some (payload\<lparr>log_errors :=
                 if 500 < length errors then drop (length errors - 500) errors else errors\<rparr>))"

text \<open>
  Reloading the corpus (\<open>lines.map(line => JSON.parse(line))\<close>), and its entries for one
  identifier.
\<close>

definition linesOf :: "disk \<Rightarrow> jsonlLine list" where
  "linesOf d = (case jsonl d of None \<Rightarrow> [] | Some ls \<Rightarrow> ls)"

definition corpus :: "disk \<Rightarrow> Uoc list" where
  "corpus d = concat (map (\<lambda>l. case l of UnitLine u \<Rightarrow> [u] | OtherLine x \<Rightarrow> []) (linesOf d))"

definition entries :: "disk \<Rightarrow> string \<Rightarrow> Uoc list" where
  "entries d c = filter (\<lambda>u. u_code u = c) (corpus d)"

subsection \<open>Calls of \<open>writeJsonl\<close> that do not overlap\<close>

text \<open>
  What the writes of one crawl do to the corpus when every call of \<open>writeJsonl\<close>
  returns before the next one starts: a new \<open>ExportService\<close>, \<open>init\<close>, then one
  \<open>writeJsonl\<close> for each extracted record in turn.  This is a crawl with one worker,
  the default of \<open>Crawler\<close> (\<open>opts?.concurrency ?? 1\<close>) and what \<open>index.ts\<close> and
  \<open>syncUnits.ts\<close> configure.  Several runs work on the same directory one after the
  other.
\<close>

definition serialRun :: "disk \<Rightarrow> Uoc list \<Rightarrow> disk" where
  "serialRun d items = snd (foldl writeJsonl (init (newExportService, d)) items)"

definition serialRuns :: "disk \<Rightarrow> Uoc list list \<Rightarrow> disk" where
  "serialRuns d runs = foldl serialRun d runs"

subsection \<open>Calls of \<open>writeJsonl\<close> that overlap\<close>

text \<open>
  \<open>writeJsonl\<close> is an \<open>async\<close> function, and the crawler that \<open>syncUnits\<close> of
  \<open>autoSync.ts\<close> constructs runs three workers (\<open>concurrency: 3\<close>): while one call
  waits at an \<open>await\<close>, the calls of the other workers go on.  The stages of one call,
  each of which runs without interruption:

    \<^item> \<open>Entering\<close>: the test \<open>this.existingCodes.has(item.code)\<close>;
    \<^item> \<open>Reading\<close>: in \<open>removeUnit\<close>, \<open>await fs.readFile\<close> (a missing file throws and
      the \<open>catch\<close> returns);
    \<^item> \<open>Rewriting lines\<close>: \<open>await fs.writeFile\<close> of the lines that were read, without
      those of the code;
    \<^item> \<open>Appending\<close>: \<open>await fs.appendFile\<close>;
    \<^item> \<open>Tracking\<close>: \<open>this.existingCodes.add(item.code)\<close> and the write of the file of
      the unit.

  \<open>writeStep\<close> runs one stage and yields the next one, or \<open>None\<close> when the call
  returns.
\<close>

datatype writeStage = Entering | Reading | Rewriting "jsonlLine list" | Appending | Tracking

fun writeStep ::
  "ExportService \<times> disk \<Rightarrow> Uoc \<Rightarrow> writeStage \<Rightarrow> (ExportService \<times> disk) \<times> writeStage option" where
  "writeStep (e, d) item Entering =
     ((e, d), Some (if u_code item \<in> existingCodes e then Reading else Appending))"
| "writeStep (e, d) item Reading =
     ((e, d), Some (case jsonl d of Some ls \<Rightarrow> Rewriting ls | None \<Rightarrow> Appending))"
| "writeStep (e, d) item (Rewriting ls) =
     ((e, d\<lparr>jsonl := Some (filter (keepLine (u_code item)) ls)\<rparr>), Some Appending)"
| "writeStep (e, d) item Appending =
     ((e, d\<lparr>jsonl := Some (linesOf d @ [UnitLine item])\<rparr>), Some Tracking)"
| "writeStep (e, d) item Tracking =
     ((e\<lparr>existingCodes := insert (u_code item) (existingCodes e)\<rparr>,
       d\<lparr>unitFiles := (unitFiles d)(u_code item \<mapsto> item)\<rparr>), None)"

text \<open>
  The workers of \<open>crawlUocUrls\<close>, as far as the corpus is concerned.  \<open>p_queue\<close> holds
  the records that the pages of the queue parse to, in the order of the queue; a worker
  is idle (\<open>None\<close>) or inside \<open>writeJsonl\<close> for a record, at a stage.  \<open>poolStep p k\<close>
  lets the worker \<open>k\<close> go on: an idle worker takes the next record of the queue
  (\<open>const i = idx++\<close>, then the fetch and the parse, which do not touch the exporter), a
  worker inside a call runs its stage.  A schedule is the list of the workers that go on,
  in order.
\<close>

record pool =
  p_queue :: "Uoc list"
  p_workers :: "(Uoc \<times> writeStage) option list"
  p_store :: "ExportService \<times> disk"

definition poolStep :: "pool \<Rightarrow> nat \<Rightarrow> pool" where
  "poolStep p k =
     (if k < length (p_workers p) then
        (case p_workers p ! k of
           None \<Rightarrow>
             (case p_queue p of
                [] \<Rightarrow> p
              | item # rest \<Rightarrow>
                  p\<lparr>p_queue := rest, p_workers := (p_workers p)[k := Some (item, Entering)]\<rparr>)
         | Some (item, stage) \<Rightarrow>
             (case writeStep (p_store p) item stage of
                (store, next) \<Rightarrow>
                  p\<lparr>p_store := store,
                    p_workers := (p_workers p)[k := map_option (Pair item) next]\<rparr>))
      else p)"

text \<open>
  A crawl with \<open>n\<close> workers on the directory \<open>d\<close>: \<open>init\<close>, then the workers under
  a schedule.
\<close>

definition concurrentWrites :: "nat \<Rightarrow> disk \<Rightarrow> Uoc list \<Rightarrow> nat list \<Rightarrow> pool" where
  "concurrentWrites n d items schedule =
     foldl poolStep
       \<lparr>p_queue = items, p_workers = replicate n None, p_store = init (newExportService, d)\<rparr>
       schedule"

text \<open>The record written last for an identifier, if any.\<close>

definition lastWritten :: "string \<Rightarrow> Uoc list \<Rightarrow> Uoc option" where
  "lastWritten c items = List.find (\<lambda>u. u_code u = c) (rev items)"

text \<open>
  The invariant of an exporter and its directory after \<open>init\<close>: every identifier of the
  corpus that is not empty is in \<open>existingCodes\<close>.
\<close>

definition tracked :: "ExportService \<times> disk \<Rightarrow> bool" where
  "tracked ed = (\<forall>u \<in> set (corpus (snd ed)). u_code u \<noteq> [] \<longrightarrow> u_code u \<in> existingCodes (fst ed))"

text \<open>A record with the mandatory fields only, for examples.\<close>

definition minimalUoc :: "string \<Rightarrow> string \<Rightarrow> string \<Rightarrow> Uoc" where
  "minimalUoc c t fetched =
     \<lparr> u_url = unitUrl c, u_code = c, u_title = t,
       u_status = None, u_release = None, u_application = None, u_unitSector = None,
       u_licensingOrRegulatoryInfo = None, u_prerequisites = None, u_elements = None,
       u_foundationSkills = None, u_assessmentConditions = None, u_performanceEvidence = None,
       u_knowledgeEvidence = None, u_description = None, u_supersededBy = None,
       u_supersedes = None, u_sections = None, u_lastFetchedAt = fetched \<rparr>"

text \<open>
  Two pages of one run, at different addresses, on which no identity strategy matches:
  \<open>parseUocHtml\<close> gives both the code \<open>Unknown\<close>.
\<close>

definition unknownA :: Uoc where
  "unknownA = (minimalUoc ''Unknown'' ''Unknown'' ''2025-11-07T10:30:01.000Z'')
                \<lparr>u_url := unitUrl ''MARA022''\<rparr>"

definition unknownB :: Uoc where
  "unknownB = (minimalUoc ''Unknown'' ''Unknown'' ''2025-11-07T10:30:02.000Z'')
                \<lparr>u_url := unitUrl ''MARB027''\<rparr>"

section \<open>The document extractor (\<open>parsers/uocParser.ts\<close>)\<close>

subsection \<open>The loaded document\<close>

text \<open>
  \<open>parseUocHtml\<close> reads the page through the selection interface of the library cheerio,
  which is not part of the repository.  The model takes what the selections return: a
  \<open>document\<close> holds, for the document that \<open>cheerio.load(html)\<close> builds, the texts
  and elements that the queries of the modelled strategies deliver, and the results of the
  extractor functions of the fields that no claim is about.  A link is an element matched by
  \<open>a[href^='/training/details/']\<close> with its attribute, its text and the text of its
  parent.
\<close>

record link =
  href :: "string option"
  linkText :: string
  parentText :: string

record document =
  heroCount :: nat  \<comment> \<open>\<open>$(".heroSubheading .title").length\<close>\<close>
  heroStrong :: string  \<comment> \<open>\<open>heroSubheading.find("strong").first().text()\<close>\<close>
  heroText :: string  \<comment> \<open>\<open>heroSubheading.text()\<close>\<close>
  h1Text :: string  \<comment> \<open>\<open>$("h1").first().text()\<close>\<close>
  h2Text :: string  \<comment> \<open>\<open>$("h2").first().text()\<close>\<close>
  pTexts :: "string list"  \<comment> \<open>the texts of \<open>$("p")\<close>, in document order\<close>
  pillTexts :: "string list"  \<comment> \<open>the texts of \<open>$(".mint-pill")\<close>\<close>
  releaseText :: string  \<comment> \<open>\<open>$(".release-label").parent().text()\<close>\<close>
  detailLinks :: "link list"  \<comment> \<open>\<open>$("a[href^='/training/details/']")\<close>\<close>
  headingSections :: "UocSection list"  \<comment> \<open>what the walk over \<open>$("h2, h3, h4")\<close> collects\<close>
  application :: "string option"  \<comment> \<open>\<open>cleanApplication(applicationRaw)\<close>\<close>
  unitSector :: "string option"
  licensing :: "string option"  \<comment> \<open>\<open>extractLicensingInfo($)\<close>\<close>
  prerequisitesRaw :: "string option"
  elementsAndPC :: "UocElement list option"  \<comment> \<open>\<open>extractElementsAndPC($)\<close>\<close>
  foundationSkills :: "string option"
  assessmentConditions :: "string option"  \<comment> \<open>\<open>extractAssessmentConditions($)\<close>\<close>
  performanceEvidence :: "string option"  \<comment> \<open>\<open>extractPerformanceEvidence($)\<close>\<close>
  knowledgeEvidence :: "string option"  \<comment> \<open>\<open>extractKnowledgeEvidence($)\<close>\<close>

text \<open>The document of the empty string: every selection is empty.\<close>

definition emptyDocument :: document where
  "emptyDocument =
     \<lparr> heroCount = 0, heroStrong = [], heroText = [], h1Text = [], h2Text = [], pTexts = [],
       pillTexts = [], releaseText = [], detailLinks = [], headingSections = [],
       application = None, unitSector = None, licensing = None, prerequisitesRaw = None,
       elementsAndPC = None, foundationSkills = None, assessmentConditions = None,
       performanceEvidence = None, knowledgeEvidence = None \<rparr>"

subsection \<open>The expressions\<close>

text \<open>The code shape \<open>[A-Z]{2,}\w*\d{2,}\<close> that four expressions share.\<close>

definition codeShape :: regex where
  "codeShape =
     seq [Rep (Cls [Rng CHR ''A'' CHR ''Z'']) 2 None, Rep (Cls [Wrd]) 0 None,
          Rep (Cls [Dgt]) 2 None]"

text \<open>\<open>/Unit of Competency:\s*([A-Z]{2,}\w*\d{2,})/i\<close>\<close>

definition uocHeadingPattern :: regex where
  "uocHeadingPattern =
     seq [Str ''Unit of Competency:'', Rep (Cls [Spc]) 0 None, Group 1 codeShape]"

text \<open>\<open>/Title:\s*(.+)$/i\<close>\<close>

definition titlePattern :: regex where
  "titlePattern = seq [Str ''Title:'', Rep (Cls [Spc]) 0 None, Group 1 (Rep Dot 1 None), Eol]"

text \<open>
  \<open>/^([A-Z]{2,}\w*\d{2,})\s*[-\<dots>]?\s*(.+)$/\<close>, whose class holds the hyphen, the en
  dash and the em dash; the two dashes are code units above 255 and so not in any string
  of the model.
\<close>

definition codeTitlePattern :: regex where
  "codeTitlePattern =
     seq [Bol, Group 1 codeShape, Rep (Cls [Spc]) 0 None, Rep (Cls [Chr CHR ''-'']) 0 (Some 1),
          Rep (Cls [Spc]) 0 None, Group 2 (Rep Dot 1 None), Eol]"

text \<open>\<open>/\b([A-Z]{2,}\w*\d{2,})\b/\<close>\<close>

definition linkCodePattern :: regex where
  "linkCodePattern = seq [WordB, Group 1 codeShape, WordB]"

text \<open>\<open>/\b[A-Z]{2,}\w*\d{2,}\b/g\<close>\<close>

definition prerequisitePattern :: regex where
  "prerequisitePattern = seq [WordB, codeShape, WordB]"

text \<open>\<open>/^\s*Description:\s*(.+)$/i\<close>\<close>

definition descriptionPattern :: regex where
  "descriptionPattern =
     seq [Bol, Rep (Cls [Spc]) 0 None, Str ''Description:'', Rep (Cls [Spc]) 0 None,
          Group 1 (Rep Dot 1 None), Eol]"

text \<open>\<open>/Release\s*(\d+)/i\<close>\<close>

definition releasePattern :: regex where
  "releasePattern = seq [Str ''Release'', Rep (Cls [Spc]) 0 None, Group 1 (Rep (Cls [Dgt]) 1 None)]"

subsection \<open>\<open>extractCodeAndTitle\<close>\<close>

text \<open>\<open>s.replace(t, "")\<close> with a string \<open>t\<close>: the first occurrence is removed.\<close>

fun removeFirst :: "string \<Rightarrow> string \<Rightarrow> string" where
  "removeFirst [] t = []"
| "removeFirst (c # s) t =
     (if prefix t (c # s) then drop (length t) (c # s) else c # removeFirst s t)"

text \<open>
  The three strategies in their order: the hero subtitle, the heading
  \<open>Unit of Competency: CODE\<close> with a title from the first \<open>h2\<close>, the heading
  \<open>CODE - Title\<close>; then the default.
\<close>

definition extractCodeAndTitle :: "document \<Rightarrow> string \<times> string" where
  "extractCodeAndTitle doc =
     (let strongText = trim (heroStrong doc);
          fullText = trim (heroText doc)
      in if 0 < heroCount doc \<and> strongText \<noteq> [] \<and> fullText \<noteq> []
         then (strongText, trim (removeFirst fullText strongText))
         else
           (let h1 = trim (h1Text doc) in
            case rexec True uocHeadingPattern h1 of
              Some uocMatch \<Rightarrow>
                (let h2 = trim (h2Text doc) in
                 (groupText h1 uocMatch 1,
                  (case rexec True titlePattern h2 of
                     Some titleMatch \<Rightarrow> trim (groupText h2 titleMatch 1)
                   | None \<Rightarrow> [])))
            | None \<Rightarrow>
                (case rexec False codeTitlePattern h1 of
                   Some m \<Rightarrow> (groupText h1 m 1, groupText h1 m 2)
                 | None \<Rightarrow> (''Unknown'', ''Unknown''))))"

subsection \<open>The description, \<open>extractStatus\<close> and the prerequisites\<close>

text \<open>The loop over \<open>$("p")\<close> stops at the first paragraph that matches.\<close>

fun findDescription :: "string list \<Rightarrow> string option" where
  "findDescription [] = None"
| "findDescription (p # ps) =
     (let t = trim p in
      case rexec True descriptionPattern t of
        Some m \<Rightarrow> Some (trim (groupText t m 1))
      | None \<Rightarrow> findDescription ps)"

text \<open>
  Every pill whose text is one of the three words assigns the status, so the last one
  stays.  \<open>text.charAt(0).toUpperCase() + text.slice(1)\<close>:
\<close>

definition capitalize :: "string \<Rightarrow> string" where
  "capitalize t = toUpperCase (take 1 t) @ drop 1 t"

definition statusStep :: "string option \<Rightarrow> string \<Rightarrow> string option" where
  "statusStep status pill =
     (let t = toLowerCase (trim pill) in
      if t = ''current'' \<or> t = ''superseded'' \<or> t = ''deleted'' then Some (capitalize t)
      else status)"

definition extractStatus :: "document \<Rightarrow> string option \<times> string option" where
  "extractStatus doc =
     (foldl statusStep None (pillTexts doc),
      (case rexec True releasePattern (releaseText doc) of
         Some releaseMatch \<Rightarrow> Some (''Release '' @ groupText (releaseText doc) releaseMatch 1)
       | None \<Rightarrow> None))"

text \<open>
  \<open>prerequisitesRaw ? [...new Set(prerequisitesRaw.match(...) ?? [])] : undefined\<close>;
  the empty string is falsy.
\<close>

definition extractPrerequisites :: "string option \<Rightarrow> string list option" where
  "extractPrerequisites raw =
     (case raw of
        None \<Rightarrow> None
      | Some r \<Rightarrow>
          if r = [] then None
          else Some (uniq (map (\<lambda>(a, e, cs). take (e - a) (drop a r))
                             (matchAll False prerequisitePattern r))))"

subsection \<open>\<open>extractSupersession\<close>\<close>

text \<open>\<open>/superseded by/i\<close>, \<open>/supersedes/i\<close> and \<open>/supersedes:/i\<close>\<close>

definition supersededByPattern :: regex where
  "supersededByPattern = Str ''superseded by''"

definition supersedesPattern :: regex where
  "supersedesPattern = Str ''supersedes''"

definition supersedesColonPattern :: regex where
  "supersedesColonPattern = Str ''supersedes:''"

text \<open>
  What the callback of \<open>each\<close> would assign for one link: the reference built from the
  code in the text of the link, if the text has one.
\<close>

definition linkRef :: "link \<Rightarrow> UnitRef option" where
  "linkRef a =
     (let text = trim (linkText a) in
      case rexec False linkCodePattern text of
        Some codeMatch \<Rightarrow>
          Some \<lparr>ref_code = groupText text codeMatch 1,
                ref_url = ''https://training.gov.au''
                            @ (case href a of Some h \<Rightarrow> h | None \<Rightarrow> [])\<rparr>
      | None \<Rightarrow> None)"

definition isSupersededBy :: "link \<Rightarrow> bool" where
  "isSupersededBy a = rtest True supersededByPattern (toLowerCase (parentText a))"

definition isSupersedes :: "link \<Rightarrow> bool" where
  "isSupersedes a =
     (rtest True supersedesPattern (toLowerCase (parentText a))
      \<or> rtest True supersedesColonPattern (trim (linkText a)))"

text \<open>
  The callback: each of the two variables is assigned whenever its phrase is found and
  the link has a code, whatever the variable holds.
\<close>

definition supersessionStep ::
  "UnitRef option \<times> UnitRef option \<Rightarrow> link \<Rightarrow> UnitRef option \<times> UnitRef option" where
  "supersessionStep acc a =
     (case acc of (supersededBy, supersedes) \<Rightarrow>
        ((if isSupersededBy a then (case linkRef a of Some r \<Rightarrow> Some r | None \<Rightarrow> supersededBy)
          else supersededBy),
         (if isSupersedes a then (case linkRef a of Some r \<Rightarrow> Some r | None \<Rightarrow> supersedes)
          else supersedes)))"

definition extractSupersession :: "document \<Rightarrow> UnitRef option \<times> UnitRef option" where
  "extractSupersession doc = foldl supersessionStep (None, None) (detailLinks doc)"

subsection \<open>\<open>parseUocHtml\<close>\<close>

text \<open>
  The record built from a loaded document.  \<open>now\<close> is \<open>new Date().toISOString()\<close> at
  the time of the extraction.
\<close>

definition parseDocument :: "document \<Rightarrow> string \<Rightarrow> string \<Rightarrow> Uoc" where
  "parseDocument doc url now =
     (case extractCodeAndTitle doc of (c, t) \<Rightarrow>
      case extractStatus doc of (st, rel) \<Rightarrow>
      case extractSupersession doc of (supersededBy, supersedes) \<Rightarrow>
        \<lparr> u_url = url, u_code = c, u_title = t,
          u_status = st, u_release = rel,
          u_application = application doc,
          u_unitSector = unitSector doc,
          u_licensingOrRegulatoryInfo = licensing doc,
          u_prerequisites = extractPrerequisites (prerequisitesRaw doc),
          u_elements = elementsAndPC doc,
          u_foundationSkills = foundationSkills doc,
          u_assessmentConditions = assessmentConditions doc,
          u_performanceEvidence = performanceEvidence doc,
          u_knowledgeEvidence = knowledgeEvidence doc,
          u_description = findDescription (pTexts doc),
          u_supersededBy = supersededBy,
          u_supersedes = supersedes,
          u_sections = (if headingSections doc \<noteq> [] then Some (headingSections doc) else None),
          u_lastFetchedAt = now \<rparr>)"

text \<open>
  \<open>parseUocHtml(html, url)\<close>; \<open>load\<close> stands for \<open>cheerio.load\<close> followed by the
  selections, which build a document from any string.
\<close>

definition parseUocHtml :: "(string \<Rightarrow> document) \<Rightarrow> string \<Rightarrow> string \<Rightarrow> string \<Rightarrow> Uoc" where
  "parseUocHtml load html url now = parseDocument (load html) url now"

text \<open>
  The condition under which no identity strategy matches: the hero subtitle is missing
  or one of its two texts is empty, and neither expression matches the first \<open>h1\<close>.
\<close>

definition noIdentityStrategy :: "document \<Rightarrow> bool" where
  "noIdentityStrategy doc =
     (\<not> (0 < heroCount doc \<and> trim (heroStrong doc) \<noteq> [] \<and> trim (heroText doc) \<noteq> [])
      \<and> rexec True uocHeadingPattern (trim (h1Text doc)) = None
      \<and> rexec False codeTitlePattern (trim (h1Text doc)) = None)"

text \<open>
  The reference of the last, and of the first, link in document order that stands in a
  relation and carries a code.
\<close>

definition lastRef :: "(link \<Rightarrow> bool) \<Rightarrow> link list \<Rightarrow> UnitRef option" where
  "lastRef rel ls =
     (case rev (filter (\<lambda>a. rel a \<and> linkRef a \<noteq> None) ls) of
        [] \<Rightarrow> None
      | a # as \<Rightarrow> linkRef a)"

definition firstRef :: "(link \<Rightarrow> bool) \<Rightarrow> link list \<Rightarrow> UnitRef option" where
  "firstRef rel ls =
     (case filter (\<lambda>a. rel a \<and> linkRef a \<noteq> None) ls of
        [] \<Rightarrow> None
      | a # as \<Rightarrow> linkRef a)"

text \<open>A page that names two successors, each in a paragraph \<open>Superseded by CODE\<close>.\<close>

definition twoSuccessors :: document where
  "twoSuccessors =
     emptyDocument\<lparr>detailLinks :=
       [\<lparr>href = Some ''/training/details/MARH013/unitdetails'', linkText = ''MARH013'',
         parentText = ''Superseded by MARH013''\<rparr>,
        \<lparr>href = Some ''/training/details/MARH014/unitdetails'', linkText = ''MARH014'',
         parentText = ''Superseded by MARH014''\<rparr>]\<rparr>"

section \<open>The crawler and the whole run\<close>

subsection \<open>\<open>Crawler.crawlUocUrls\<close> (\<open>crawler.ts\<close>)\<close>

text \<open>
  The state of a crawl: the fetcher, the exporter with its directory and with the file
  \<open>error-log.json\<close> of that directory, and the two counters.  The workers are run one
  after the other, in the order of the queue.  The crawler calls \<open>get\<close> on the fetcher
  it was given, which in \<open>syncUnits\<close> is the \<open>CachedFetcher\<close>.  The \<open>catch\<close> branch
  keeps the failure in \<open>failures\<close> and hands it to \<open>logError\<close>; it calls nothing
  else.
\<close>

record crawlState =
  c_fetcher :: CachedFetcher
  c_exporter :: "ExportService \<times> disk"
  c_errorLog :: "ErrorLog option"
  successes :: nat
  failures :: "(string \<times> string) list"

definition crawlStep ::
  "(string \<Rightarrow> document) \<Rightarrow> (string \<Rightarrow> nat \<Rightarrow> jsError + string) \<Rightarrow> string
     \<Rightarrow> crawlState \<Rightarrow> string \<Rightarrow> crawlState" where
  "crawlStep load net now st url =
     (case CachedFetcher_get (c_fetcher st) url (net url) of
        (f, Inr html) \<Rightarrow>
          st\<lparr>c_fetcher := f,
             c_exporter := writeJsonl (c_exporter st) (parseUocHtml load html url now),
             successes := successes st + 1\<rparr>
      | (f, Inl err) \<Rightarrow>
          st\<lparr>c_fetcher := f,
             failures := failures st @ [(url, messageOf err)],
             c_errorLog :=
               logError (c_errorLog st)
                 \<lparr>lf_url = url, lf_errorType = ErrorType_string (classifyError (Some err)),
                  lf_message = messageOf err\<rparr>\<rparr>)"

definition crawlUocUrls ::
  "(string \<Rightarrow> document) \<Rightarrow> (string \<Rightarrow> nat \<Rightarrow> jsError + string) \<Rightarrow> string
     \<Rightarrow> CachedFetcher \<Rightarrow> ExportService \<times> disk \<Rightarrow> ErrorLog option \<Rightarrow> string list
     \<Rightarrow> crawlState" where
  "crawlUocUrls load net now f ed logFile urls =
     foldl (crawlStep load net now)
       \<lparr>c_fetcher = f, c_exporter = init ed, c_errorLog = logFile, successes = 0,
        failures = []\<rparr> (uniq urls)"


subsection \<open>\<open>getExistingUnits\<close> and the planner's view of the files\<close>





subsection \<open>\<open>syncUnits\<close>\<close>

text \<open>
  What a run leaves behind: the three outcomes of the validation, the file
  \<open>error-log.json\<close> (the old one when the run ends before validating; after the crawl,
  what \<open>saveErrorLog\<close> wrote and \<open>logError\<close> added to), the events of the fetcher and
  the directory of the corpus.  The export to the workbook after the crawl is a collaborator
  outside the model.
\<close>

record syncOutcome =
  out_valid :: "string list"
  out_invalid :: "(string \<times> string) list"
  out_errors :: "(string \<times> UnitError) list"
  out_log :: "ErrorLog option"
  out_trace :: "event list"
  out_disk :: disk

definition syncUnits ::
  "workbook option \<Rightarrow> string \<Rightarrow> (string \<rightharpoonup> string) \<Rightarrow> ErrorLog option \<Rightarrow> SyncConfig
     \<Rightarrow> (string \<Rightarrow> nat \<Rightarrow> jsError + string) \<Rightarrow> (string \<Rightarrow> document) \<Rightarrow> string \<Rightarrow> disk
     \<Rightarrow> jsError + syncOutcome" where
  "syncUnits inputExcel inputColumn existingUnits logFile config net load now d =
     (case readUnitCodesFromExcel inputExcel inputColumn of
        Inl e \<Rightarrow> Inl e
      | Inr requestedCodes \<Rightarrow>
          (let previousErrors = loadPreviousErrors logFile now;
               queue = allUnitsToProcess
                         (planUnits requestedCodes existingUnits previousErrors
                            (syncMaxRetries config))
           in if queue = []
              then Inr \<lparr>out_valid = [], out_invalid = [], out_errors = [], out_log = logFile,
                        out_trace = [], out_disk = d\<rparr>
              else
                (let st = validateUnits previousErrors net now initialSyncState queue in
                 if validUnits st = []
                 then Inr \<lparr>out_valid = [], out_invalid = invalidUnits st,
                           out_errors = errorUnits st, out_log = Some (saveErrorLog st),
                           out_trace = trace (fetcher st), out_disk = d\<rparr>
                 else
                   (let cr = crawlUocUrls load net now (fetcher st) (newExportService, d)
                               (Some (saveErrorLog st)) (map unitUrl (validUnits st))
                    in Inr \<lparr>out_valid = validUnits st, out_invalid = invalidUnits st,
                              out_errors = errorUnits st, out_log = c_errorLog cr,
                              out_trace = trace (c_fetcher cr),
                              out_disk = snd (c_exporter cr)\<rparr>))))"

text \<open>How often \<open>Fetcher.get\<close>, the path that goes to the network, ran for a URL.\<close>

definition networkGets :: "event list \<Rightarrow> string \<Rightarrow> nat" where
  "networkGets tr url = count_list tr (PoliteDelay url)"

text \<open>
  A run for examples: a workbook with the one cell \<open>MARA022\<close>, and a network on which
  every page loads at once and shows a unit.
\<close>

definition onePageNet :: "string \<Rightarrow> nat \<Rightarrow> jsError + string" where
  "onePageNet url k = Inr ''<h1>Unit of competency</h1>''"

definition oneCellBook :: workbook where
  "oneCellBook = [(''Sheet1'', [[(''Unit Code'', CString ''MARA022'')]])]"

text \<open>
  A run for scenario C: a workbook with the one cell \<open>INVALID001\<close>, and a network on
  which every page loads at once and says that the unit was not found.
\<close>

definition notFoundNet :: "string \<Rightarrow> nat \<Rightarrow> jsError + string" where
  "notFoundNet url k = Inr ''<h1>404 - page not found</h1>''"

definition invalidBook :: workbook where
  "invalidBook = [(''Sheet1'', [[(''Unit Code'', CString ''INVALID001'')]])]"



section \<open>Properties of the planner\<close>

lemma planUnits_filter:
  "planUnits rs ex pe m =
     \<lparr>unitsToScrape = filter (\<lambda>c. classify ex pe m c = New) rs,
      unitsToRetry = filter (\<lambda>c. classify ex pe m c = Retry) rs,
      unitsSkipped = filter (\<lambda>c. classify ex pe m c = Skip) rs\<rparr>"
proof -
  have "foldl (planStep ex pe m) p rs =
     \<lparr>unitsToScrape = unitsToScrape p @ filter (\<lambda>c. classify ex pe m c = New) rs,
      unitsToRetry = unitsToRetry p @ filter (\<lambda>c. classify ex pe m c = Retry) rs,
      unitsSkipped = unitsSkipped p @ filter (\<lambda>c. classify ex pe m c = Skip) rs\<rparr>" for p
  proof (induction rs arbitrary: p)
    case Nil
    show ?case by simp
  next
    case (Cons c rs)
    let ?q = "planStep ex pe m p c"
    have step: "foldl (planStep ex pe m) p (c # rs) = foldl (planStep ex pe m) ?q rs"
      by simp
    have q: "unitsToScrape ?q = unitsToScrape p @ (if classify ex pe m c = New then [c] else [])"
      "unitsToRetry ?q = unitsToRetry p @ (if classify ex pe m c = Retry then [c] else [])"
      "unitsSkipped ?q = unitsSkipped p @ (if classify ex pe m c = Skip then [c] else [])"
      by (cases "classify ex pe m c"; simp add: planStep_def)+
    show ?case
      unfolding step Cons.IH [of ?q] q by simp
  qed
  then show ?thesis by (simp add: planUnits_def)
qed


lemma classify_cases:
  "classify ex pe m c = Skip \<longleftrightarrow>
     ex c \<noteq> None \<or> (\<exists>e. pe c = Some e \<and> \<not> attempts e < m)"
  "classify ex pe m c = Retry \<longleftrightarrow>
     ex c = None \<and> (\<exists>e. pe c = Some e \<and> attempts e < m)"
  "classify ex pe m c = New \<longleftrightarrow> ex c = None \<and> pe c = None"
  by (auto simp: classify_def split: option.splits)

lemma plan_sets:
  "set (unitsToScrape (planUnits rs ex pe m)) = {c \<in> set rs. classify ex pe m c = New}"
  "set (unitsToRetry (planUnits rs ex pe m)) = {c \<in> set rs. classify ex pe m c = Retry}"
  "set (unitsSkipped (planUnits rs ex pe m)) = {c \<in> set rs. classify ex pe m c = Skip}"
  by (simp_all add: planUnits_filter)

text \<open>
  Claim C1, as the specification states it: an identifier that the previous run wrote
  into \<open>invalidUnits\<close> is skipped by the next run and is in neither work list.  The code
  does not do that: \<open>loadPreviousErrors\<close> reads \<open>errorUnits\<close> only, so whatever
  \<open>invalidUnits\<close> holds, a code that is absent from the output workbook and from
  \<open>errorUnits\<close> takes the branch "new" and is put on the work queue again.  In
  scenario C the first run records \<open>INVALID001\<close> under \<open>invalidUnits\<close>, and the second
  run, which reads that log, loads its page again.
\<close>

theorem invalid_unit_is_planned_again:
  "classify Map.empty
     (loadPreviousErrors
        (Some \<lparr>log_invalidUnits = ivs, log_errorUnits = [], log_errors = ers\<rparr>) now) m c = New
   \<and> allUnitsToProcess
       (syncPlan [''INVALID001''] Map.empty
          (Some \<lparr>log_invalidUnits = [(''INVALID001'', ''Unit does not exist (404)'')],
                 log_errorUnits = [], log_errors = []\<rparr>)
          \<lparr>sc_maxRetries = Some 3\<rparr> now) = [''INVALID001'']
   \<and> (case syncUnits (Some invalidBook) [] Map.empty None \<lparr>sc_maxRetries = Some 3\<rparr>
              notFoundNet (\<lambda>html. emptyDocument) ''2025-11-07T10:30:00.000Z''
              \<lparr>jsonl = None, unitFiles = Map.empty\<rparr> of
         Inr out \<Rightarrow> out_log out
       | Inl e \<Rightarrow> None)
      = Some \<lparr>log_invalidUnits = [(''INVALID001'', ''Unit does not exist (404)'')],
               log_errorUnits = [], log_errors = []\<rparr>
   \<and> (case syncUnits (Some invalidBook) [] Map.empty
              (Some \<lparr>log_invalidUnits = [(''INVALID001'', ''Unit does not exist (404)'')],
                     log_errorUnits = [], log_errors = []\<rparr>)
              \<lparr>sc_maxRetries = Some 3\<rparr>
              notFoundNet (\<lambda>html. emptyDocument) ''2025-11-08T09:00:00.000Z''
              \<lparr>jsonl = None, unitFiles = Map.empty\<rparr> of
         Inr out \<Rightarrow> out_trace out
       | Inl e \<Rightarrow> [])
      = [PoliteDelay ''https://training.gov.au/training/details/INVALID001/unitdetails'',
         Goto ''https://training.gov.au/training/details/INVALID001/unitdetails'' 1]"
proof (intro conjI)
  show "classify Map.empty
     (loadPreviousErrors
        (Some \<lparr>log_invalidUnits = ivs, log_errorUnits = [], log_errors = ers\<rparr>) now) m c = New"
    by (simp add: classify_def loadPreviousErrors_def)
  show "allUnitsToProcess
       (syncPlan [''INVALID001''] Map.empty
          (Some \<lparr>log_invalidUnits = [(''INVALID001'', ''Unit does not exist (404)'')],
                 log_errorUnits = [], log_errors = []\<rparr>)
          \<lparr>sc_maxRetries = Some 3\<rparr> now) = [''INVALID001'']"
    by (simp add: classify_def loadPreviousErrors_def syncPlan_def planUnits_def planStep_def
        allUnitsToProcess_def syncMaxRetries_def)
  show "(case syncUnits (Some invalidBook) [] Map.empty None \<lparr>sc_maxRetries = Some 3\<rparr>
              notFoundNet (\<lambda>html. emptyDocument) ''2025-11-07T10:30:00.000Z''
              \<lparr>jsonl = None, unitFiles = Map.empty\<rparr> of
         Inr out \<Rightarrow> out_log out
       | Inl e \<Rightarrow> None)
      = Some \<lparr>log_invalidUnits = [(''INVALID001'', ''Unit does not exist (404)'')],
               log_errorUnits = [], log_errors = []\<rparr>"
    by code_simp
  show "(case syncUnits (Some invalidBook) [] Map.empty
              (Some \<lparr>log_invalidUnits = [(''INVALID001'', ''Unit does not exist (404)'')],
                     log_errorUnits = [], log_errors = []\<rparr>)
              \<lparr>sc_maxRetries = Some 3\<rparr>
              notFoundNet (\<lambda>html. emptyDocument) ''2025-11-08T09:00:00.000Z''
              \<lparr>jsonl = None, unitFiles = Map.empty\<rparr> of
         Inr out \<Rightarrow> out_trace out
       | Inl e \<Rightarrow> [])
      = [PoliteDelay ''https://training.gov.au/training/details/INVALID001/unitdetails'',
         Goto ''https://training.gov.au/training/details/INVALID001/unitdetails'' 1]"
    by code_simp
qed











text \<open>
  Claim C4, amended to what the code does: the work queue is \<open>unitsToScrape\<close> followed by
  \<open>unitsToRetry\<close>, so every new code stands before every code that is retried.
\<close>

theorem queue_new_before_retry:
  "allUnitsToProcess (planUnits rs ex pe m)
     = unitsToScrape (planUnits rs ex pe m) @ unitsToRetry (planUnits rs ex pe m)
   \<and> (\<forall>i j. i < length (allUnitsToProcess (planUnits rs ex pe m))
          \<and> j < length (allUnitsToProcess (planUnits rs ex pe m))
          \<and> allUnitsToProcess (planUnits rs ex pe m) ! i \<in> set (unitsToScrape (planUnits rs ex pe m))
          \<and> allUnitsToProcess (planUnits rs ex pe m) ! j \<in> set (unitsToRetry (planUnits rs ex pe m))
        \<longrightarrow> i < j)"
proof -
  let ?A = "unitsToScrape (planUnits rs ex pe m)"
  let ?B = "unitsToRetry (planUnits rs ex pe m)"
  have disj: "set ?A \<inter> set ?B = {}"
    by (auto simp: plan_sets)
  have "i < j" if "i < length (?A @ ?B)" "j < length (?A @ ?B)"
    "(?A @ ?B) ! i \<in> set ?A" "(?A @ ?B) ! j \<in> set ?B" for i j
  proof -
    have "i < length ?A"
    proof (rule ccontr)
      assume "\<not> i < length ?A"
      with that(1) have "(?A @ ?B) ! i \<in> set ?B"
        by (simp add: nth_append)
      with that(3) disj show False by blast
    qed
    moreover have "length ?A \<le> j"
    proof (rule ccontr)
      assume "\<not> length ?A \<le> j"
      then have "(?A @ ?B) ! j \<in> set ?A"
        by (simp add: nth_append)
      with that(4) disj show False by blast
    qed
    ultimately show ?thesis by simp
  qed
  then show ?thesis
    unfolding allUnitsToProcess_def by blast
qed

theorem queue_new_before_retry_witness:
  "allUnitsToProcess (planUnits [''TIMEOUT001'', ''MARA022''] Map.empty
       [''TIMEOUT001'' \<mapsto> \<lparr>code = ''TIMEOUT001'', error = ''timeout'', attempts = 1, lastAttempt = ''t''\<rparr>] 3)
     = [''MARA022'', ''TIMEOUT001'']
   \<and> (0::nat) < 1"
  using queue_new_before_retry [of "[''TIMEOUT001'', ''MARA022'']" Map.empty
       "[''TIMEOUT001'' \<mapsto> \<lparr>code = ''TIMEOUT001'', error = ''timeout'', attempts = 1, lastAttempt = ''t''\<rparr>]" 3]
  by (simp add: planUnits_filter classify_def)

text \<open>
  Claim C4 as the specification states it (retry list first) fails: with one pending and
  one new code the queue starts with the new code.
\<close>

theorem queue_retry_first_counterexample:
  "allUnitsToProcess (planUnits [''TIMEOUT001'', ''MARA022''] Map.empty
       [''TIMEOUT001'' \<mapsto> \<lparr>code = ''TIMEOUT001'', error = ''timeout'', attempts = 1, lastAttempt = ''t''\<rparr>] 3)
   \<noteq> unitsToRetry (planUnits [''TIMEOUT001'', ''MARA022''] Map.empty
       [''TIMEOUT001'' \<mapsto> \<lparr>code = ''TIMEOUT001'', error = ''timeout'', attempts = 1, lastAttempt = ''t''\<rparr>] 3)
     @ unitsToScrape (planUnits [''TIMEOUT001'', ''MARA022''] Map.empty
       [''TIMEOUT001'' \<mapsto> \<lparr>code = ''TIMEOUT001'', error = ''timeout'', attempts = 1, lastAttempt = ''t''\<rparr>] 3)"
  by (simp add: planUnits_filter classify_def allUnitsToProcess_def)

section \<open>Properties of the fetch engine\<close>

lemma emit_fields [simp]:
  "maxRetries (emit f ev) = maxRetries f" "backoffMs (emit f ev) = backoffMs f"
  "trace (emit f ev) = trace f @ [ev]" "minDelayMs (emit f ev) = minDelayMs f"
  by (simp_all add: emit_def)

declare getLoop.simps [simp del]

lemma getLoop_all_fail:
  "(\<And>k. attempt < k \<Longrightarrow> k \<le> maxRetries f \<Longrightarrow> isl (page k)) \<Longrightarrow>
   getLoop f url page attempt lastErr =
     (f\<lparr>trace := trace f @ concat (map (attemptEvents url (backoffMs f) (maxRetries f))
                                      [attempt + 1 ..< maxRetries f + 1])\<rparr>,
      Inl (if attempt < maxRetries f then Some (projl (page (maxRetries f))) else lastErr))"
proof (induction f url page attempt lastErr rule: getLoop.induct)
  case (1 f url page attempt lastErr)
  show ?case
  proof (cases "attempt < maxRetries f")
    case False
    then show ?thesis by (subst getLoop.simps) simp
  next
    case True
    then obtain err where err: "page (attempt + 1) = Inl err"
      using "1.prems" [of "attempt + 1"] by (cases "page (attempt + 1)") auto
    let ?f1 = "emit f (Goto url (attempt + 1))"
    let ?f2 = "if attempt + 1 < maxRetries ?f1
               then emit ?f1 (Backoff (backoffMs ?f1 * (attempt + 1))) else ?f1"
    have mr: "maxRetries ?f2 = maxRetries f" "backoffMs ?f2 = backoffMs f" by simp_all
    have IH: "getLoop ?f2 url page (attempt + 1) (Some err) =
       (?f2\<lparr>trace := trace ?f2 @ concat (map (attemptEvents url (backoffMs f) (maxRetries f))
                                      [attempt + 1 + 1 ..< maxRetries f + 1])\<rparr>,
        Inl (if attempt + 1 < maxRetries f then Some (projl (page (maxRetries f))) else Some err))"
      using "1.IH" [OF True refl refl err] "1.prems" mr by simp
    have range: "[attempt + 1 ..< maxRetries f + 1]
                   = (attempt + 1) # [attempt + 1 + 1 ..< maxRetries f + 1]"
      using True by (simp add: upt_conv_Cons)
    have last: "\<not> attempt + 1 < maxRetries f \<Longrightarrow> maxRetries f = attempt + 1"
      using True by simp
    show ?thesis
      apply (subst getLoop.simps)
      apply (simp only: True if_True Let_def err sum.case IH range)
      using last err
      apply (auto simp: attemptEvents_def emit_def)
      done
  qed
qed

lemma getLoop_first_success:
  "attempt < s \<Longrightarrow> s \<le> maxRetries f \<Longrightarrow> page s = Inr html \<Longrightarrow>
   (\<And>k. attempt < k \<Longrightarrow> k < s \<Longrightarrow> isl (page k)) \<Longrightarrow>
   getLoop f url page attempt lastErr =
     (f\<lparr>trace := trace f @ concat (map (attemptEvents url (backoffMs f) (maxRetries f))
                                      [attempt + 1 ..< s]) @ [Goto url s]\<rparr>,
      Inr html)"
proof (induction f url page attempt lastErr rule: getLoop.induct)
  case (1 f url page attempt lastErr)
  have lt: "attempt < maxRetries f" using "1.prems" by simp
  show ?case
  proof (cases "s = attempt + 1")
    case True
    then show ?thesis
      using "1.prems" lt by (subst getLoop.simps) (simp add: emit_def)
  next
    case False
    then have s: "attempt + 1 < s" using "1.prems" by simp
    then obtain err where err: "page (attempt + 1) = Inl err"
      using "1.prems"(4) [of "attempt + 1"] by (cases "page (attempt + 1)") auto
    let ?f1 = "emit f (Goto url (attempt + 1))"
    let ?f2 = "if attempt + 1 < maxRetries ?f1
               then emit ?f1 (Backoff (backoffMs ?f1 * (attempt + 1))) else ?f1"
    have mr: "maxRetries ?f2 = maxRetries f" "backoffMs ?f2 = backoffMs f" by simp_all
    have IH: "getLoop ?f2 url page (attempt + 1) (Some err) =
       (?f2\<lparr>trace := trace ?f2 @ concat (map (attemptEvents url (backoffMs f) (maxRetries f))
                                      [attempt + 1 + 1 ..< s]) @ [Goto url s]\<rparr>,
        Inr html)"
      using "1.IH" [OF lt refl refl err s] "1.prems" mr by simp
    have range: "[attempt + 1 ..< s] = (attempt + 1) # [attempt + 1 + 1 ..< s]"
      using s by (simp add: upt_conv_Cons)
    have more: "attempt + 1 < maxRetries f" using s "1.prems" by simp
    show ?thesis
      apply (subst getLoop.simps)
      apply (simp only: lt if_True Let_def err sum.case IH range)
      using more
      apply (simp add: attemptEvents_def emit_def)
      done
  qed
qed

lemma gotoCount_append: "gotoCount (xs @ ys) = gotoCount xs + gotoCount ys"
  by (simp add: gotoCount_def)

lemma gotoCount_PoliteDelay: "gotoCount (PoliteDelay u # xs) = gotoCount xs"
  by (simp add: gotoCount_def)

lemma gotoCount_Goto: "gotoCount [Goto u k] = 1"
  by (simp add: gotoCount_def)

lemma gotoCount_attempts:
  "gotoCount (concat (map (attemptEvents url b n) [i ..< j])) = j - i"
proof (induction j)
  case 0
  show ?case by (simp add: gotoCount_def)
next
  case (Suc j)
  show ?case
  proof (cases "i \<le> j")
    case True
    then show ?thesis
      using Suc by (simp add: attemptEvents_def gotoCount_def)
  next
    case False
    then show ?thesis by (simp add: gotoCount_def)
  qed
qed

lemma Fetcher_get_all_fail:
  assumes "\<And>k. 1 \<le> k \<Longrightarrow> k \<le> maxRetries f \<Longrightarrow> isl (page k)" and "0 < maxRetries f"
  shows "Fetcher_get f url page =
     (f\<lparr>trace := trace f @ PoliteDelay url #
          concat (map (attemptEvents url (backoffMs f) (maxRetries f)) [1 ..< maxRetries f + 1])\<rparr>,
      Inl (Error (''FetchFailed:''
                   @ ErrorType_string (classifyError (Some (projl (page (maxRetries f)))))
                   @ '':'' @ errMsg (Some (projl (page (maxRetries f)))))))"
proof -
  have "getLoop (emit f (PoliteDelay url)) url page 0 None =
     ((emit f (PoliteDelay url))\<lparr>trace := trace (emit f (PoliteDelay url)) @
          concat (map (attemptEvents url (backoffMs (emit f (PoliteDelay url)))
                        (maxRetries (emit f (PoliteDelay url)))) [0 + 1 ..< maxRetries (emit f (PoliteDelay url)) + 1])\<rparr>,
      Inl (if 0 < maxRetries (emit f (PoliteDelay url))
           then Some (projl (page (maxRetries (emit f (PoliteDelay url))))) else None))"
    by (rule getLoop_all_fail) (use assms in simp)
  then show ?thesis
    using assms(2) by (simp add: Fetcher_get_def emit_def)
qed

lemma Fetcher_get_first_success:
  assumes "1 \<le> s" "s \<le> maxRetries f" "page s = Inr html"
    and "\<And>k. 1 \<le> k \<Longrightarrow> k < s \<Longrightarrow> isl (page k)"
  shows "Fetcher_get f url page =
     (f\<lparr>trace := trace f @ PoliteDelay url #
          concat (map (attemptEvents url (backoffMs f) (maxRetries f)) [1 ..< s]) @ [Goto url s]\<rparr>,
      Inr html)"
proof -
  have "getLoop (emit f (PoliteDelay url)) url page 0 None =
     ((emit f (PoliteDelay url))\<lparr>trace := trace (emit f (PoliteDelay url)) @
          concat (map (attemptEvents url (backoffMs (emit f (PoliteDelay url)))
                        (maxRetries (emit f (PoliteDelay url)))) [0 + 1 ..< s]) @ [Goto url s]\<rparr>,
      Inr html)"
    by (rule getLoop_first_success) (use assms in simp_all)
  then show ?thesis
    by (simp add: Fetcher_get_def emit_def)
qed

lemma Fetcher_get_no_attempts:
  "maxRetries f = 0 \<Longrightarrow>
   Fetcher_get f url page =
     (f\<lparr>trace := trace f @ [PoliteDelay url]\<rparr>, Inl (Error ''FetchFailed:UNKNOWN:undefined''))"
  by (simp add: Fetcher_get_def getLoop.simps emit_def classifyError_def errMsg_def)

text \<open>
  Every \<open>get\<close> falls under one of three cases: no attempt is allowed, all attempts fail,
  or some attempt is the first to succeed.
\<close>

lemma Fetcher_get_cases:
  fixes f :: "'a Fetcher_scheme" and page :: "nat \<Rightarrow> jsError + string"
  obtains (none) "maxRetries f = 0"
  | (fail) "0 < maxRetries f" "\<And>k. 1 \<le> k \<Longrightarrow> k \<le> maxRetries f \<Longrightarrow> isl (page k)"
  | (succ) s html where "1 \<le> s" "s \<le> maxRetries f" "page s = Inr html"
      "\<And>k. 1 \<le> k \<Longrightarrow> k < s \<Longrightarrow> isl (page k)"
proof (cases "\<exists>k. 1 \<le> k \<and> k \<le> maxRetries f \<and> \<not> isl (page k)")
  case True
  define s where "s = (LEAST k. 1 \<le> k \<and> k \<le> maxRetries f \<and> \<not> isl (page k))"
  have s: "1 \<le> s \<and> s \<le> maxRetries f \<and> \<not> isl (page s)"
    unfolding s_def using True by (rule LeastI_ex)
  have least: "isl (page k)" if "1 \<le> k" "k < s" for k
  proof (rule ccontr)
    assume "\<not> isl (page k)"
    with that s have "1 \<le> k \<and> k \<le> maxRetries f \<and> \<not> isl (page k)" by simp
    then have "s \<le> k" unfolding s_def by (rule Least_le)
    with that show False by simp
  qed
  from s obtain html where "page s = Inr html"
    by (cases "page s") auto
  with s least show ?thesis by (blast intro: succ)
next
  case False
  then show ?thesis
    by (cases "maxRetries f = 0") (blast intro: none fail)+
qed

lemma Fetcher_get_gotoCount:
  "gotoCount (trace (fst (Fetcher_get f url page))) \<le> gotoCount (trace f) + maxRetries f"
proof (cases rule: Fetcher_get_cases [where f = f and page = page])
  case none
  then show ?thesis
    by (simp add: Fetcher_get_no_attempts gotoCount_def)
next
  case fail
  have "Fetcher_get f url page =
     (f\<lparr>trace := trace f @ PoliteDelay url #
          concat (map (attemptEvents url (backoffMs f) (maxRetries f)) [1 ..< maxRetries f + 1])\<rparr>,
      Inl (Error (''FetchFailed:''
                   @ ErrorType_string (classifyError (Some (projl (page (maxRetries f)))))
                   @ '':'' @ errMsg (Some (projl (page (maxRetries f)))))))"
    using fail by (intro Fetcher_get_all_fail) auto
  then have tr: "trace (fst (Fetcher_get f url page)) = trace f @ PoliteDelay url #
      concat (map (attemptEvents url (backoffMs f) (maxRetries f)) [1 ..< maxRetries f + 1])"
    by simp
  have "gotoCount (trace (fst (Fetcher_get f url page)))
          = gotoCount (trace f) + (maxRetries f + 1 - 1)"
    unfolding tr by (simp only: gotoCount_append gotoCount_PoliteDelay gotoCount_attempts)
  then show ?thesis by simp
next
  case (succ s html)
  have "Fetcher_get f url page =
     (f\<lparr>trace := trace f @ PoliteDelay url #
          concat (map (attemptEvents url (backoffMs f) (maxRetries f)) [1 ..< s]) @ [Goto url s]\<rparr>,
      Inr html)"
    using succ by (intro Fetcher_get_first_success) auto
  then have tr: "trace (fst (Fetcher_get f url page)) = trace f @ PoliteDelay url #
      concat (map (attemptEvents url (backoffMs f) (maxRetries f)) [1 ..< s]) @ [Goto url s]"
    by simp
  have "gotoCount (trace (fst (Fetcher_get f url page)))
          = gotoCount (trace f) + ((s - 1) + 1)"
    unfolding tr
    by (simp only: gotoCount_append gotoCount_PoliteDelay gotoCount_attempts gotoCount_Goto)
  then show ?thesis using succ(1,2) by simp
qed

text \<open>
  Claim C6: a fetcher built without options allows 3 attempts; a \<open>get\<close> loads the page
  at most \<open>maxRetries\<close> times; when every attempt fails the trace is the polite delay,
  then the attempts \<open>1, \<dots>, maxRetries\<close>, each but the last followed by one sleep of
  \<open>backoffMs * k\<close> after the attempt \<open>k\<close> and nothing else, and the call throws one
  error \<open>FetchFailed:type:message\<close> built from the error of the last attempt; when the
  attempt \<open>s\<close> is the first to succeed, the attempts before it are spaced in the same way
  and the call returns its HTML.
\<close>

theorem fetcher_get_bounded_linear_backoff:
  "maxRetries (newFetcher None) = 3
   \<and> gotoCount (trace (fst (Fetcher_get f url page))) \<le> gotoCount (trace f) + maxRetries f
   \<and> (0 < maxRetries f \<and> (\<forall>k. 1 \<le> k \<and> k \<le> maxRetries f \<longrightarrow> isl (page k)) \<longrightarrow>
        Fetcher_get f url page =
          (f\<lparr>trace := trace f @ PoliteDelay url #
               concat (map (attemptEvents url (backoffMs f) (maxRetries f))
                         [1 ..< maxRetries f + 1])\<rparr>,
           Inl (Error (''FetchFailed:''
                        @ ErrorType_string (classifyError (Some (projl (page (maxRetries f)))))
                        @ '':'' @ errMsg (Some (projl (page (maxRetries f))))))))
   \<and> (\<forall>s html. 1 \<le> s \<and> s \<le> maxRetries f \<and> page s = Inr html
          \<and> (\<forall>k. 1 \<le> k \<and> k < s \<longrightarrow> isl (page k)) \<longrightarrow>
        Fetcher_get f url page =
          (f\<lparr>trace := trace f @ PoliteDelay url #
               concat (map (attemptEvents url (backoffMs f) (maxRetries f)) [1 ..< s])
               @ [Goto url s]\<rparr>,
           Inr html))"
proof (intro conjI impI allI)
  show "maxRetries (newFetcher None) = 3"
    by (simp add: newFetcher_def)
  show "gotoCount (trace (fst (Fetcher_get f url page))) \<le> gotoCount (trace f) + maxRetries f"
    by (rule Fetcher_get_gotoCount)
next
  assume "0 < maxRetries f \<and> (\<forall>k. 1 \<le> k \<and> k \<le> maxRetries f \<longrightarrow> isl (page k))"
  then show "Fetcher_get f url page =
          (f\<lparr>trace := trace f @ PoliteDelay url #
               concat (map (attemptEvents url (backoffMs f) (maxRetries f))
                         [1 ..< maxRetries f + 1])\<rparr>,
           Inl (Error (''FetchFailed:''
                        @ ErrorType_string (classifyError (Some (projl (page (maxRetries f)))))
                        @ '':'' @ errMsg (Some (projl (page (maxRetries f)))))))"
    by (intro Fetcher_get_all_fail) auto
next
  fix s html
  assume "1 \<le> s \<and> s \<le> maxRetries f \<and> page s = Inr html
          \<and> (\<forall>k. 1 \<le> k \<and> k < s \<longrightarrow> isl (page k))"
  then show "Fetcher_get f url page =
          (f\<lparr>trace := trace f @ PoliteDelay url #
               concat (map (attemptEvents url (backoffMs f) (maxRetries f)) [1 ..< s])
               @ [Goto url s]\<rparr>,
           Inr html)"
    by (intro Fetcher_get_first_success) auto
qed

theorem fetcher_get_bounded_linear_backoff_witness:
  "Fetcher_get (newFetcher None) ''https://training.gov.au/training/details/TIMEOUT001/unitdetails''
     (\<lambda>k. Inl \<lparr>e_name = ''TimeoutError'', e_message = ''Navigation timeout of 30000 ms exceeded''\<rparr>)
   = (\<lparr>minDelayMs = 1500, maxRetries = 3, backoffMs = 750,
       trace = [PoliteDelay ''https://training.gov.au/training/details/TIMEOUT001/unitdetails'',
                Goto ''https://training.gov.au/training/details/TIMEOUT001/unitdetails'' 1, Backoff 750,
                Goto ''https://training.gov.au/training/details/TIMEOUT001/unitdetails'' 2, Backoff 1500,
                Goto ''https://training.gov.au/training/details/TIMEOUT001/unitdetails'' 3]\<rparr>,
      Inl (Error ''FetchFailed:TIMEOUT:Navigation timeout of 30000 ms exceeded''))
   \<and> Fetcher_get (newFetcher None) ''u''
     (\<lambda>k. if k = 1 then Inl (Error ''net::ERR_CONNECTION_RESET'') else Inr ''<html></html>'')
   = (\<lparr>minDelayMs = 1500, maxRetries = 3, backoffMs = 750,
       trace = [PoliteDelay ''u'', Goto ''u'' 1, Backoff 750, Goto ''u'' 2]\<rparr>,
      Inr ''<html></html>'')"
proof -
  let ?t = "\<lambda>k::nat. Inl \<lparr>e_name = ''TimeoutError'', e_message = ''Navigation timeout of 30000 ms exceeded''\<rparr> :: jsError + string"
  let ?p = "\<lambda>k::nat. if k = 1 then Inl (Error ''net::ERR_CONNECTION_RESET'') else Inr ''<html></html>'' :: jsError + string"
  have r: "[Suc 0 ..< 4] = [Suc 0, 2, 3]" "[Suc 0 ..< 2] = [Suc 0]"
    by (simp_all add: upt_conv_Cons)
  have c: "classifyError (Some \<lparr>e_name = ''TimeoutError'', e_message = ''Navigation timeout of 30000 ms exceeded''\<rparr>) = TIMEOUT"
    by (simp add: classifyError_def messageOf_def toLowerCase_def lowerChar_def)
  have a: "Fetcher_get (newFetcher None) ''https://training.gov.au/training/details/TIMEOUT001/unitdetails'' ?t
   = (\<lparr>minDelayMs = 1500, maxRetries = 3, backoffMs = 750,
       trace = [PoliteDelay ''https://training.gov.au/training/details/TIMEOUT001/unitdetails'',
                Goto ''https://training.gov.au/training/details/TIMEOUT001/unitdetails'' 1, Backoff 750,
                Goto ''https://training.gov.au/training/details/TIMEOUT001/unitdetails'' 2, Backoff 1500,
                Goto ''https://training.gov.au/training/details/TIMEOUT001/unitdetails'' 3]\<rparr>,
      Inl (Error ''FetchFailed:TIMEOUT:Navigation timeout of 30000 ms exceeded''))"
    using fetcher_get_bounded_linear_backoff [of "newFetcher None" "''https://training.gov.au/training/details/TIMEOUT001/unitdetails''" ?t]
    by (simp add: newFetcher_def attemptEvents_def r c errMsg_def)
  have b: "Fetcher_get (newFetcher None) ''u'' ?p
   = (\<lparr>minDelayMs = 1500, maxRetries = 3, backoffMs = 750,
       trace = [PoliteDelay ''u'', Goto ''u'' 1, Backoff 750, Goto ''u'' 2]\<rparr>,
      Inr ''<html></html>'')"
  proof -
    have h: "1 \<le> (2::nat) \<and> 2 \<le> maxRetries (newFetcher None) \<and> ?p 2 = Inr ''<html></html>''
          \<and> (\<forall>k. 1 \<le> k \<and> k < 2 \<longrightarrow> isl (?p k))"
      by (auto simp: newFetcher_def)
    show ?thesis
      using fetcher_get_bounded_linear_backoff [of "newFetcher None" "''u''" ?p,
          THEN conjunct2, THEN conjunct2, THEN conjunct2, rule_format, OF h]
      by (simp add: newFetcher_def attemptEvents_def r)
  qed
  show ?thesis using a b by simp
qed

section \<open>Properties of the validation phase\<close>










section \<open>Properties of the matcher and of the identifier extractor\<close>

lemma case_facts:
  "isUpper (upperAscii c) \<longleftrightarrow> isUpper c \<or> isLower c"
  "isUpper (lowerAscii c) \<longleftrightarrow> False"
  "isDigit (upperAscii c) \<longleftrightarrow> isDigit c"
  "isDigit (lowerAscii c) \<longleftrightarrow> isDigit c"
  by (auto simp: isUpper_def isLower_def isDigit_def inRange_def upperAscii_def lowerAscii_def)

lemma single_mem_upper:
  "single_mem False (Cls [Rng CHR ''A'' CHR ''Z'']) c \<longleftrightarrow> isUpper c"
  "single_mem True (Cls [Rng CHR ''A'' CHR ''Z'']) c \<longleftrightarrow> isUpper c \<or> isLower c"
  using case_facts [of c] by (auto simp: isUpper_def isLower_def)

lemma single_mem_digit: "single_mem ic (Cls [Dgt]) c \<longleftrightarrow> isDigit c"
  using case_facts [of c] by auto

lemma single_mem_upper_digit:
  "single_mem True (Cls [Rng CHR ''A'' CHR ''Z'', Rng CHR ''0'' CHR ''9'']) c \<longleftrightarrow> isAlnum c"
  using case_facts [of c] by (auto simp: isUpper_def isLower_def isDigit_def isAlnum_def)

lemma takeWhile_run:
  assumes i: "i \<le> length s" and k: "k \<le> length (takeWhile P (drop i s))"
  shows "i + k \<le> length s \<and> (\<forall>j. i \<le> j \<and> j < i + k \<longrightarrow> P (s ! j))"
proof (intro conjI allI impI)
  have le: "length (takeWhile P (drop i s)) \<le> length (drop i s)"
    by (rule length_takeWhile_le)
  with k i show "i + k \<le> length s" by simp
  fix j assume j: "i \<le> j \<and> j < i + k"
  then have lt: "j - i < length (takeWhile P (drop i s))" using k by linarith
  then have "takeWhile P (drop i s) ! (j - i) \<in> set (takeWhile P (drop i s))"
    by (rule nth_mem)
  then have "P (takeWhile P (drop i s) ! (j - i))"
    by (rule set_takeWhileD [THEN conjunct2])
  moreover have "takeWhile P (drop i s) ! (j - i) = drop i s ! (j - i)"
    using lt by (rule takeWhile_nth)
  moreover have "drop i s ! (j - i) = s ! j"
    using j lt le by simp
  ultimately show "P (s ! j)" by simp
qed

lemma rmatch_Rep:
  assumes "(j, cs') \<in> set (rmatch ic (Rep c lo hi) s (i, cs))" and "i \<le> length s"
  shows "cs' = cs \<and> i + lo \<le> j \<and> j \<le> length s \<and> (\<forall>h. hi = Some h \<longrightarrow> j \<le> i + h)
         \<and> (\<forall>k. i \<le> k \<and> k < j \<longrightarrow> single_mem ic c (s ! k))"
proof -
  let ?n = "length (takeWhile (single_mem ic c) (drop i s))"
  let ?m = "case hi of None \<Rightarrow> ?n | Some h \<Rightarrow> min ?n h"
  from assms obtain k where k: "j = i + k" "cs' = cs" "lo \<le> k" "k \<le> ?m"
    by (auto simp: Let_def)
  have m: "?m \<le> ?n" by (cases hi) auto
  have hi: "\<forall>h. hi = Some h \<longrightarrow> k \<le> h" using k(4) by auto
  from takeWhile_run [of i s k "single_mem ic c"] k m assms(2)
  have "i + k \<le> length s \<and> (\<forall>j. i \<le> j \<and> j < i + k \<longrightarrow> single_mem ic c (s ! j))"
    by simp
  then show ?thesis using k hi by auto
qed

lemma find_SomeD: "List.find P xs = Some x \<Longrightarrow> P x \<and> x \<in> set xs"
  by (induction xs) (auto split: if_splits)

lemma rexecFrom_SomeD:
  assumes "rexecFrom ic r s p = Some (a, e, cs)"
  shows "p \<le> a \<and> a \<le> length s \<and> rmatch ic r s (a, []) \<noteq> []
         \<and> (e, cs) = hd (rmatch ic r s (a, []))"
proof -
  from assms obtain i where f: "List.find (\<lambda>i. rmatch ic r s (i, []) \<noteq> []) [p ..< length s + 1] = Some i"
    and h: "(case hd (rmatch ic r s (i, [])) of (e, cs) \<Rightarrow> Some (i, e, cs)) = Some (a, e, cs)"
    by (auto simp: rexecFrom_def split: option.splits)
  from h have "i = a" "(e, cs) = hd (rmatch ic r s (a, []))"
    by (auto split: prod.splits)
  with find_SomeD [OF f] show ?thesis by auto
qed

lemma rexec_SomeD:
  "rexec ic r s \<noteq> None \<Longrightarrow> \<exists>i. i \<le> length s \<and> rmatch ic r s (i, []) \<noteq> []"
  using rexecFrom_SomeD [of ic r s 0] by (auto simp: rexec_def)

lemma rmatch_Bol_seq:
  "rmatch ic (Then Bol r) s (i, cs) \<noteq> [] \<Longrightarrow> i = 0"
  by (auto split: if_splits)

lemma startPattern_match:
  assumes "rexec False startPattern c \<noteq> None"
  shows "2 \<le> length c \<and> isUpper (c ! 0) \<and> isUpper (c ! 1)"
proof -
  from rexec_SomeD [OF assms] obtain i where i: "rmatch False startPattern c (i, []) \<noteq> []"
    by blast
  then have "i = 0" unfolding startPattern_def by (auto split: if_splits)
  with i obtain j cs where
    "(j, cs) \<in> set (rmatch False (Rep (Cls [Rng CHR ''A'' CHR ''Z'']) 2 (Some 4)) c (0, []))"
    unfolding startPattern_def by (cases "rmatch False (Rep (Cls [Rng CHR ''A'' CHR ''Z'']) 2 (Some 4)) c (0, [])") (auto simp del: rmatch.simps(4))
  from rmatch_Rep [OF this]
  have "2 \<le> j" "j \<le> length c" "\<forall>k. k < j \<longrightarrow> isUpper (c ! k)"
    by (simp_all add: single_mem_upper del: single_mem.simps)
  then show ?thesis by auto
qed

lemma rmatch_Then_set:
  "set (rmatch ic (Then r1 r2) s st) = (\<Union>st1 \<in> set (rmatch ic r1 s st). set (rmatch ic r2 s st1))"
  by simp

lemma rmatch_Bol_set: "set (rmatch ic Bol s (i, cs)) = (if i = 0 then {(i, cs)} else {})"
  by simp

lemma rmatch_Eol_set: "set (rmatch ic Eol s (i, cs)) = (if i = length s then {(i, cs)} else {})"
  by simp

lemma validPattern_match:
  assumes "rexec True validPattern c \<noteq> None"
  shows "(\<forall>k < length c. isAlnum (c ! k)) \<and> 3 \<le> length c
         \<and> (isDigit (c ! (length c - 1))
             \<or> (isAlpha (c ! (length c - 1)) \<and> isDigit (c ! (length c - 2))))"
proof -
  let ?U = "Rep (Cls [Rng CHR ''A'' CHR ''Z'']) 2 (Some 4)"
  let ?A = "Rep (Cls [Rng CHR ''A'' CHR ''Z'', Rng CHR ''0'' CHR ''9'']) 0 None"
  let ?D = "Rep (Cls [Dgt]) 1 None"
  let ?L = "Rep (Cls [Rng CHR ''A'' CHR ''Z'']) 0 (Some 1)"
  from rexec_SomeD [OF assms] obtain i where "rmatch True validPattern c (i, []) \<noteq> []"
    by blast
  then obtain st where "st \<in> set (rmatch True validPattern c (i, []))"
    by (cases "rmatch True validPattern c (i, [])") auto
  then obtain j1 c1 j2 c2 j3 c3 j4 c4 where
    i: "i = 0" and
    1: "(j1, c1) \<in> set (rmatch True ?U c (0, []))" and
    2: "(j2, c2) \<in> set (rmatch True ?A c (j1, c1))" and
    3: "(j3, c3) \<in> set (rmatch True ?D c (j2, c2))" and
    4: "(j4, c4) \<in> set (rmatch True ?L c (j3, c3))" and
    5: "j4 = length c"
    unfolding validPattern_def seq.simps rmatch_Then_set rmatch_Bol_set rmatch_Eol_set
    by (fastforce split: if_splits)
  from rmatch_Rep [OF 1] have a1: "2 \<le> j1" "j1 \<le> length c"
    "\<forall>k. k < j1 \<longrightarrow> isAlpha (c ! k)"
    by (simp_all add: single_mem_upper isAlpha_def del: single_mem.simps)
  from rmatch_Rep [OF 2 a1(2)] have a2: "j1 \<le> j2" "j2 \<le> length c"
    "\<forall>k. j1 \<le> k \<and> k < j2 \<longrightarrow> isAlnum (c ! k)"
    by (simp_all add: single_mem_upper_digit del: single_mem.simps)
  from rmatch_Rep [OF 3 a2(2)] have a3: "j2 + 1 \<le> j3" "j3 \<le> length c"
    "\<forall>k. j2 \<le> k \<and> k < j3 \<longrightarrow> isDigit (c ! k)"
    by (simp_all add: single_mem_digit del: single_mem.simps)
  from rmatch_Rep [OF 4 a3(2)] have a4: "j3 \<le> j4" "j4 \<le> j3 + 1"
    "\<forall>k. j3 \<le> k \<and> k < j4 \<longrightarrow> isAlpha (c ! k)"
    by (simp_all add: single_mem_upper isAlpha_def del: single_mem.simps)
  have all: "isAlnum (c ! k)" if kl: "k < length c" for k
  proof -
    consider "k < j1" | "j1 \<le> k \<and> k < j2" | "j2 \<le> k \<and> k < j3" | "j3 \<le> k \<and> k < j4"
      using kl 5 by linarith
    then show ?thesis
      using a1(3) a2(3) a3(3) a4(3) by cases (auto simp: isAlnum_def isAlpha_def)
  qed
  have len: "3 \<le> length c" using a1 a2 a3 a4 5 by linarith
  have last: "isDigit (c ! (length c - 1))
             \<or> (isAlpha (c ! (length c - 1)) \<and> isDigit (c ! (length c - 2)))"
  proof (cases "j4 = j3")
    case True
    then have "j2 \<le> length c - 1 \<and> length c - 1 < j3" using a3 5 by linarith
    then show ?thesis using a3(3) by blast
  next
    case False
    then have e: "j4 = j3 + 1" using a4 by linarith
    then have "j3 \<le> length c - 1 \<and> length c - 1 < j4" using 5 by linarith
    moreover have "j2 \<le> length c - 2 \<and> length c - 2 < j3" using e a3 5 by linarith
    ultimately show ?thesis using a3(3) a4(3) by blast
  qed
  show ?thesis using all len last by blast
qed

lemma find_Some_first:
  "List.find P xs = Some x \<Longrightarrow> \<exists>k < length xs. xs ! k = x \<and> (\<forall>j < k. \<not> P (xs ! j))"
  by (auto simp: find_Some_iff)

lemma rexecFrom_first:
  assumes "rexecFrom ic r s p = Some (a, e, cs)" and "p \<le> i" and "i < a"
  shows "rmatch ic r s (i, []) = []"
proof -
  from assms(1) obtain x where f: "List.find (\<lambda>i. rmatch ic r s (i, []) \<noteq> []) [p ..< length s + 1] = Some x"
    and h: "(case hd (rmatch ic r s (x, [])) of (e, cs) \<Rightarrow> Some (x, e, cs)) = Some (a, e, cs)"
    by (auto simp: rexecFrom_def split: option.splits)
  from h have x: "x = a" by (auto split: prod.splits)
  from find_Some_first [OF f] obtain k where k: "k < length [p ..< length s + 1]"
    "[p ..< length s + 1] ! k = a" "\<forall>j < k. \<not> rmatch ic r s ([p ..< length s + 1] ! j, []) \<noteq> []"
    using x by blast
  from k(1) have kl: "p + k < length s + 1"
    unfolding length_upt by linarith
  with k(2) have a: "a = p + k" by (simp only: nth_upt)
  with assms(2,3) have ik: "i - p < k" by simp
  with k(3) have "rmatch ic r s ([p ..< length s + 1] ! (i - p), []) = []" by blast
  moreover have "p + (i - p) < length s + 1" using ik kl by linarith
  then have "[p ..< length s + 1] ! (i - p) = p + (i - p)"
    by (rule nth_upt)
  ultimately show ?thesis using assms(2) by simp
qed

lemma rexecFrom_None:
  assumes "rexecFrom ic r s p = None" and "p \<le> i" and "i \<le> length s"
  shows "rmatch ic r s (i, []) = []"
proof -
  from assms(1) have "List.find (\<lambda>i. rmatch ic r s (i, []) \<noteq> []) [p ..< length s + 1] = None"
    by (auto simp: rexecFrom_def split: option.splits prod.splits)
  then show ?thesis using assms(2,3) by (auto simp: find_None_iff)
qed

lemma rmatch_digit:
  "rmatch False digitPattern s (i, []) = (if i < length s \<and> isDigit (s ! i) then [(i + 1, [])] else [])"
  by (simp add: digitPattern_def)

lemma filter_drop_none:
  assumes "\<And>i. p \<le> i \<Longrightarrow> i < a \<Longrightarrow> \<not> P (s ! i)" and "a \<le> length s" and "p \<le> a"
  shows "filter P (drop p s) = filter P (drop a s)"
proof -
  have "drop p s = take (a - p) (drop p s) @ drop a s"
    using assms(2,3) by (metis append_take_drop_id drop_drop le_add_diff_inverse2)
  moreover have "filter P (take (a - p) (drop p s)) = []"
  proof -
    have "\<not> P x" if "x \<in> set (take (a - p) (drop p s))" for x
    proof -
      from that obtain k where k: "k < length (take (a - p) (drop p s))"
        "take (a - p) (drop p s) ! k = x"
        by (auto simp: in_set_conv_nth)
      then have "k < a - p" "x = s ! (p + k)" using assms(2) by auto
      then show ?thesis using assms(1) [of "p + k"] by simp
    qed
    then show ?thesis by (simp add: filter_empty_conv)
  qed
  ultimately show ?thesis by (metis filter_append append_Nil)
qed

lemma matchAllFrom_digits:
  "p \<le> length s \<Longrightarrow>
   length (matchAllFrom False digitPattern s p) = length (filter isDigit (drop p s))"
proof (induction "length s - p" arbitrary: p rule: less_induct)
  case less
  show ?case
  proof (cases "rexecFrom False digitPattern s p")
    case None
    have "\<not> isDigit (s ! i)" if "p \<le> i" "i < length s" for i
      using rexecFrom_None [OF None that(1)] that(2) by (simp add: rmatch_digit split: if_splits)
    then have "filter isDigit (drop p s) = filter isDigit (drop (length s) s)"
      using less.prems by (intro filter_drop_none) auto
    then show ?thesis
      using None less.prems by (subst matchAllFrom.simps) simp
  next
    case (Some m)
    obtain a e cs where m: "m = (a, e, cs)" by (cases m)
    from rexecFrom_SomeD [OF Some [unfolded m]]
    have a: "p \<le> a" "a < length s" "isDigit (s ! a)" "e = a + 1"
      by (auto simp: rmatch_digit split: if_splits)
    have first: "\<not> isDigit (s ! i)" if "p \<le> i" "i < a" for i
      using rexecFrom_first [OF Some [unfolded m] that] that a(2)
      by (simp add: rmatch_digit split: if_splits)
    have IH: "length (matchAllFrom False digitPattern s (a + 1))
                = length (filter isDigit (drop (a + 1) s))"
      using a less.prems by (intro less.hyps) auto
    have "filter isDigit (drop p s) = filter isDigit (drop a s)"
      using first a by (intro filter_drop_none) auto
    also have "drop a s = s ! a # drop (a + 1) s"
      using a(2) by (simp add: Cons_nth_drop_Suc)
    finally have f: "length (filter isDigit (drop p s)) = 1 + length (filter isDigit (drop (a + 1) s))"
      using a(3) by simp
    have "matchAllFrom False digitPattern s p = (a, e, cs) # matchAllFrom False digitPattern s (a + 1)"
      using Some m a less.prems by (subst matchAllFrom.simps) auto
    then show ?thesis using IH f by simp
  qed
qed

lemma matchAll_digits: "length (matchAll False digitPattern s) = length (filter isDigit s)"
  using matchAllFrom_digits [of 0 s] by (simp add: matchAll_def)

lemma upper_not_digit: "isUpper x \<Longrightarrow> \<not> isDigit x"
  by (auto simp: isUpper_def isDigit_def inRange_def)

lemma excludeList_upper: "w \<in> set excludeList \<Longrightarrow> toUpperCase w = w"
  by (auto simp: excludeList_def toUpperCase_def upperChar_def)

lemma isValidUnitCode_grammar:
  assumes "isValidUnitCode c"
  shows "spec_tokenGrammar c \<and> c \<notin> set excludeList"
proof -
  from assms have len: "6 \<le> length c" "length c \<le> 12"
    and st: "rexec False startPattern c \<noteq> None"
    and dg: "3 \<le> length (matchAll False digitPattern c)"
    and ex: "toUpperCase c \<notin> set excludeList"
    and vp: "rexec True validPattern c \<noteq> None"
    by (auto simp: isValidUnitCode_def split: if_splits)
  from startPattern_match [OF st] have up: "isUpper (c ! 0)" "isUpper (c ! 1)" by simp_all
  from validPattern_match [OF vp] have al: "\<forall>k < length c. isAlnum (c ! k)"
    and la: "isDigit (c ! (length c - 1))
             \<or> (isAlpha (c ! (length c - 1)) \<and> isDigit (c ! (length c - 2)))"
    by simp_all
  obtain x y zs where xyz: "c = x # y # zs"
    using len(1) by (cases c; cases "tl c") auto
  have t2: "take 2 c = [c ! 0, c ! 1]"
    unfolding xyz by simp
  have c: "c = [c ! 0, c ! 1] @ drop 2 c"
    using t2 append_take_drop_id [of 2 c] by simp
  have "filter isDigit c = filter isDigit ([c ! 0, c ! 1] @ drop 2 c)"
    using c by simp
  also have "\<dots> = filter isDigit (drop 2 c)"
    using up upper_not_digit by simp
  finally have d: "3 \<le> length (filter isDigit (drop 2 c))"
    using dg by (simp add: matchAll_digits)
  have a: "list_all isAlnum (drop 2 c)"
    using al by (auto simp: list_all_iff in_set_conv_nth)
  have u: "list_all isUpper (take 2 c)"
    using up t2 by simp
  have l: "last c = c ! (length c - 1)"
    using len(1) by (intro last_conv_nth) auto
  have "spec_tokenGrammar c"
    unfolding spec_tokenGrammar_def using len u a d la l by simp
  moreover have "c \<notin> set excludeList"
    using ex excludeList_upper by fastforce
  ultimately show ?thesis by simp
qed

lemma set_uniq: "set (uniq xs) = set xs"
  by (induction xs rule: uniq.induct) auto

lemma cellCodes_valid: "c \<in> set (cellCodes v) \<Longrightarrow> isValidUnitCode c"
  by (cases v) (auto split: if_splits)

lemma readUnitCodes_valid:
  "readUnitCodesFromExcel file columnName = Inr cs \<Longrightarrow> c \<in> set cs \<Longrightarrow> isValidUnitCode c"
  by (auto simp: readUnitCodesFromExcel_def set_uniq split: option.splits dest: cellCodes_valid)

lemma scenarioA_eval:
  "readUnitCodesFromExcel (Some scenarioA) [] = Inr [''MARA022'', ''HLTAID011'']"
  by code_simp

text \<open>
  Claim C5: every code that \<open>readUnitCodesFromExcel\<close> returns satisfies the token
  grammar of the specification and is not in \<open>excludeList\<close>; for the sheet with the
  cells \<open>MARA022\<close>, \<open>SCUBA\<close> and \<open>HLTAID011\<close> it returns \<open>MARA022\<close> and
  \<open>HLTAID011\<close>.
\<close>

theorem extractor_tokens_valid:
  "(\<forall>c. readUnitCodesFromExcel file columnName = Inr cs \<and> c \<in> set cs \<longrightarrow>
        spec_tokenGrammar c \<and> c \<notin> set excludeList)
   \<and> readUnitCodesFromExcel (Some scenarioA) [] = Inr [''MARA022'', ''HLTAID011'']"
  using readUnitCodes_valid isValidUnitCode_grammar scenarioA_eval by blast

theorem extractor_tokens_valid_witness:
  "readUnitCodesFromExcel (Some scenarioA) [] = Inr [''MARA022'', ''HLTAID011'']
   \<and> ''HLTAID011'' \<in> set [''MARA022'', ''HLTAID011'']
   \<and> spec_tokenGrammar ''HLTAID011'' \<and> ''HLTAID011'' \<notin> set excludeList"
  using extractor_tokens_valid [of "Some scenarioA" "[]" "[''MARA022'', ''HLTAID011'']"]
  by simp

section \<open>Properties of the record corpus\<close>

lemma corpus_lines:
  "set (corpus d) = {u. UnitLine u \<in> set (linesOf d)}"
  by (auto simp: corpus_def split: jsonlLine.splits)

lemma foldl_trackLine:
  "foldl trackLine cs ls = cs \<union> {u_code u | u. UnitLine u \<in> set ls \<and> u_code u \<noteq> []}"
  by (induction ls arbitrary: cs) (auto simp: trackLine_def split: jsonlLine.splits)

lemma init_tracked: "tracked (init (e, d))"
  by (cases "jsonl d")
     (auto simp: tracked_def init_def corpus_lines linesOf_def foldl_trackLine)

lemma init_lines: "linesOf (snd (init (e, d))) = linesOf d"
  by (cases "jsonl d") (auto simp: init_def linesOf_def)

lemma keep_untracked:
  assumes "tracked (e, d)" "c \<noteq> []" "c \<notin> existingCodes e"
  shows "filter (keepLine c) (linesOf d) = linesOf d"
proof -
  have "keepLine c l" if "l \<in> set (linesOf d)" for l
  proof (cases l)
    case (UnitLine u)
    with that have "u \<in> set (corpus d)" by (simp add: corpus_lines)
    with assms have "u_code u \<noteq> c" by (auto simp: tracked_def)
    with UnitLine show ?thesis by (simp add: keepLine_def)
  next
    case (OtherLine x)
    then show ?thesis by (simp add: keepLine_def)
  qed
  then show ?thesis by (simp add: filter_id_conv)
qed

lemma writeJsonl_lines:
  assumes "tracked (e, d)" "u_code item \<noteq> []"
  shows "linesOf (snd (writeJsonl (e, d) item))
           = filter (keepLine (u_code item)) (linesOf d) @ [UnitLine item]"
proof (cases "u_code item \<in> existingCodes e")
  case True
  then show ?thesis
    by (cases "jsonl d") (simp_all add: writeJsonl_def removeUnit_def linesOf_def keepLine_def)
next
  case False
  from keep_untracked [OF assms False] show ?thesis
    using False by (cases "jsonl d") (simp_all add: writeJsonl_def linesOf_def)
qed

lemma writeJsonl_codes:
  "existingCodes (fst (writeJsonl (e, d) item)) = insert (u_code item) (existingCodes e)"
  by (simp add: writeJsonl_def Let_def)

lemma writeJsonl_tracked:
  assumes "tracked (e, d)" "u_code item \<noteq> []"
  shows "tracked (writeJsonl (e, d) item)"
  using assms(1) writeJsonl_lines [OF assms] writeJsonl_codes [of e d item]
  by (auto simp: tracked_def corpus_lines)

lemma corpus_filter_append:
  "linesOf d' = filter (keepLine c) (linesOf d) @ [UnitLine item] \<Longrightarrow>
   corpus d' = filter (\<lambda>u. u_code u \<noteq> c) (corpus d) @ [item]"
proof -
  have "concat (map (\<lambda>l. case l of UnitLine u \<Rightarrow> [u] | OtherLine x \<Rightarrow> []) (filter (keepLine c) ls))
        = filter (\<lambda>u. u_code u \<noteq> c) (concat (map (\<lambda>l. case l of UnitLine u \<Rightarrow> [u] | OtherLine x \<Rightarrow> []) ls))" for ls
    by (induction ls) (auto simp: keepLine_def split: jsonlLine.splits)
  then show "linesOf d' = filter (keepLine c) (linesOf d) @ [UnitLine item] \<Longrightarrow>
   corpus d' = filter (\<lambda>u. u_code u \<noteq> c) (corpus d) @ [item]"
    by (simp add: corpus_def)
qed

lemma writeJsonl_entries:
  assumes "tracked (e, d)" "u_code item \<noteq> []"
  shows "entries (snd (writeJsonl (e, d) item)) c
           = (if c = u_code item then [item] else entries d c)"
proof -
  have "corpus (snd (writeJsonl (e, d) item))
          = filter (\<lambda>u. u_code u \<noteq> u_code item) (corpus d) @ [item]"
    by (rule corpus_filter_append) (rule writeJsonl_lines [OF assms])
  then show ?thesis
    by (auto simp: entries_def intro: filter_cong)
qed

lemma foldl_writeJsonl:
  assumes "tracked ed" "\<forall>u \<in> set items. u_code u \<noteq> []"
  shows "tracked (foldl writeJsonl ed items)
         \<and> (\<forall>c. entries (snd (foldl writeJsonl ed items)) c
                = (case lastWritten c items of Some u \<Rightarrow> [u] | None \<Rightarrow> entries (snd ed) c))"
  using assms
proof (induction items rule: rev_induct)
  case Nil
  then show ?case by (simp add: lastWritten_def)
next
  case (snoc x xs)
  obtain e d where ed: "foldl writeJsonl ed xs = (e, d)" by (cases "foldl writeJsonl ed xs")
  from snoc.prems have "\<forall>u \<in> set xs. u_code u \<noteq> []" by simp
  from snoc.IH [OF snoc.prems(1) this] have IH: "tracked (e, d)"
    "\<And>c. entries d c = (case lastWritten c xs of Some u \<Rightarrow> [u] | None \<Rightarrow> entries (snd ed) c)"
    unfolding ed by simp_all
  from snoc.prems have x: "u_code x \<noteq> []" by simp
  have "tracked (writeJsonl (e, d) x)" by (rule writeJsonl_tracked [OF IH(1) x])
  moreover have "entries (snd (writeJsonl (e, d) x)) c
      = (case lastWritten c (xs @ [x]) of Some u \<Rightarrow> [u] | None \<Rightarrow> entries (snd ed) c)" for c
    unfolding writeJsonl_entries [OF IH(1) x] IH(2)
    by (simp add: lastWritten_def)
  ultimately show ?case by (simp add: ed)
qed

lemma entries_init: "entries (snd (init (e, d))) c = entries d c"
  by (simp add: entries_def corpus_def init_lines)

lemma serialRun_entries:
  assumes "\<forall>u \<in> set items. u_code u \<noteq> []"
  shows "entries (serialRun d items) c
           = (case lastWritten c items of Some u \<Rightarrow> [u] | None \<Rightarrow> entries d c)"
  using foldl_writeJsonl [OF init_tracked assms, of newExportService d]
  by (simp add: serialRun_def entries_init split: option.splits)

lemma find_app:
  "List.find P (xs @ ys) = (case List.find P xs of Some x \<Rightarrow> Some x | None \<Rightarrow> List.find P ys)"
  by (induction xs) auto

lemma lastWritten_append:
  "lastWritten c (xs @ ys) = (case lastWritten c ys of Some u \<Rightarrow> Some u | None \<Rightarrow> lastWritten c xs)"
  by (simp add: lastWritten_def find_app split: option.splits)

lemma serialRuns_entries:
  assumes "\<forall>u \<in> set (concat runs). u_code u \<noteq> []"
  shows "entries (serialRuns d runs) c
           = (case lastWritten c (concat runs) of Some u \<Rightarrow> [u] | None \<Rightarrow> entries d c)"
  using assms
proof (induction runs rule: rev_induct)
  case Nil
  then show ?case by (simp add: serialRuns_def lastWritten_def)
next
  case (snoc r rs)
  have "entries (serialRuns d (rs @ [r])) c = entries (serialRun (serialRuns d rs) r) c"
    by (simp add: serialRuns_def)
  also have "\<dots> = (case lastWritten c r of Some u \<Rightarrow> [u] | None \<Rightarrow> entries (serialRuns d rs) c)"
    using snoc.prems by (intro serialRun_entries) auto
  finally show ?case
    using snoc by (simp add: lastWritten_append split: option.splits)
qed

lemma distinct_codes_iff:
  "distinct (map u_code us) \<longleftrightarrow> (\<forall>c. length (filter (\<lambda>u. u_code u = c) us) \<le> 1)"
proof (induction us)
  case Nil
  show ?case by simp
next
  case (Cons a us)
  show ?case
  proof
    assume d: "distinct (map u_code (a # us))"
    then have "u_code a \<notin> u_code ` set us" by simp
    then have "\<forall>x \<in> set us. u_code x \<noteq> u_code a" by (metis imageI)
    then have "filter (\<lambda>u. u_code u = u_code a) us = []"
      by (simp add: filter_empty_conv)
    with d Cons show "\<forall>c. length (filter (\<lambda>u. u_code u = c) (a # us)) \<le> 1"
      by auto
  next
    assume r: "\<forall>c. length (filter (\<lambda>u. u_code u = c) (a # us)) \<le> 1"
    then have "length (filter (\<lambda>u. u_code u = u_code a) (a # us)) \<le> 1" by blast
    then have "filter (\<lambda>u. u_code u = u_code a) us = []" by simp
    then have "\<forall>x \<in> set us. u_code x \<noteq> u_code a" by (simp add: filter_empty_conv)
    then have "u_code a \<notin> u_code ` set us" by (metis imageE)
    moreover have "\<forall>c. length (filter (\<lambda>u. u_code u = c) us) \<le> 1"
    proof
      fix c
      from r have "length (filter (\<lambda>u. u_code u = c) (a # us)) \<le> 1" by blast
      then show "length (filter (\<lambda>u. u_code u = c) us) \<le> 1" by (simp split: if_splits)
    qed
    ultimately show "distinct (map u_code (a # us))" using Cons by simp
  qed
qed

text \<open>
  An identifier that is the empty string is outside the theorem below: \<open>init\<close> does
  not track it, so a second run appends a second line for it.
\<close>

lemma empty_code_is_appended_again:
  "length (entries (serialRuns \<lparr>jsonl = None, unitFiles = Map.empty\<rparr>
             [[minimalUoc [] ''a'' ''t1''], [minimalUoc [] ''b'' ''t2'']]) []) = 2"
  by (simp add: serialRuns_def serialRun_def init_def newExportService_def writeJsonl_def
      removeUnit_def trackLine_def entries_def corpus_def linesOf_def minimalUoc_def)

text \<open>
  Calls of \<open>writeJsonl\<close> that do not overlap do what the documentation promises
  ("No duplicates - always updates existing units").  A \<open>writeJsonl\<close> after \<open>init\<close>
  leaves the lines of the other identifiers in place, removes every line of the
  identifier written and appends the new line.  After any number of runs the corpus has,
  for every identifier written, exactly one entry, which is the record written last, and
  the entries of the other identifiers are those of the initial file; a corpus with at
  most one entry for each identifier stays so.  The identifiers written are not empty
  (those of \<open>parseUocHtml\<close> never are).  Scenario D: two runs that each extract
  \<open>MARB027\<close> leave one line, that of the second run.
\<close>

lemma serialRuns_one_entry_latest_wins:
  "(u_code item \<noteq> [] \<longrightarrow>
      linesOf (snd (writeJsonl (init (e, d)) item))
        = filter (keepLine (u_code item)) (linesOf d) @ [UnitLine item])
   \<and> ((\<forall>u \<in> set (concat runs). u_code u \<noteq> []) \<longrightarrow>
        (\<forall>c. entries (serialRuns d runs) c
               = (case lastWritten c (concat runs) of Some u \<Rightarrow> [u] | None \<Rightarrow> entries d c))
        \<and> (distinct (map u_code (corpus d)) \<longrightarrow>
             distinct (map u_code (corpus (serialRuns d runs)))))"
proof (intro conjI impI allI)
  assume c: "u_code item \<noteq> []"
  obtain e' d' where i: "init (e, d) = (e', d')" by (cases "init (e, d)")
  have "tracked (e', d')" using init_tracked [of e d] i by simp
  from writeJsonl_lines [OF this c] show
    "linesOf (snd (writeJsonl (init (e, d)) item))
        = filter (keepLine (u_code item)) (linesOf d) @ [UnitLine item]"
    using init_lines [of e d] i by simp
next
  fix c
  assume "\<forall>u \<in> set (concat runs). u_code u \<noteq> []"
  then show "entries (serialRuns d runs) c
               = (case lastWritten c (concat runs) of Some u \<Rightarrow> [u] | None \<Rightarrow> entries d c)"
    by (rule serialRuns_entries)
next
  assume a: "\<forall>u \<in> set (concat runs). u_code u \<noteq> []"
    and dd: "distinct (map u_code (corpus d))"
  have "length (filter (\<lambda>u. u_code u = c) (corpus (serialRuns d runs))) \<le> 1" for c
    using serialRuns_entries [OF a, of d c] dd [unfolded distinct_codes_iff]
    by (auto simp: entries_def split: option.splits)
  then show "distinct (map u_code (corpus (serialRuns d runs)))"
    unfolding distinct_codes_iff by blast
qed

lemma serialRuns_two_runs:
  "u_code (minimalUoc ''MARB027'' ''first title'' ''2025-11-07T10:30:00.000Z'') \<noteq> []
   \<and> entries (serialRuns \<lparr>jsonl = None, unitFiles = Map.empty\<rparr>
        [[minimalUoc ''MARB027'' ''first title'' ''2025-11-07T10:30:00.000Z''],
         [minimalUoc ''MARB027'' ''second title'' ''2025-11-08T09:00:00.000Z'']]) ''MARB027''
     = [minimalUoc ''MARB027'' ''second title'' ''2025-11-08T09:00:00.000Z'']
   \<and> distinct (map u_code (corpus (serialRuns \<lparr>jsonl = None, unitFiles = Map.empty\<rparr>
        [[minimalUoc ''MARB027'' ''first title'' ''2025-11-07T10:30:00.000Z''],
         [minimalUoc ''MARB027'' ''second title'' ''2025-11-08T09:00:00.000Z'']])))"
proof -
  have c: "u_code (minimalUoc ''MARB027'' t f) = ''MARB027''" for t f
    by (simp add: minimalUoc_def)
  have e: "corpus \<lparr>jsonl = None, unitFiles = Map.empty\<rparr> = []"
    by (simp add: corpus_def linesOf_def)
  show ?thesis
    using serialRuns_one_entry_latest_wins [of
        "minimalUoc ''MARB027'' ''first title'' ''2025-11-07T10:30:00.000Z''"
        newExportService "\<lparr>jsonl = None, unitFiles = Map.empty\<rparr>"
        "[[minimalUoc ''MARB027'' ''first title'' ''2025-11-07T10:30:00.000Z''],
         [minimalUoc ''MARB027'' ''second title'' ''2025-11-08T09:00:00.000Z'']]"]
    by (simp add: c e lastWritten_def)
qed

text \<open>
  A crawl with one worker is such a run: under every schedule that is long enough the
  worker ends with the corpus of \<^const>\<open>serialRun\<close>.
\<close>

lemma rep4: "replicate 4 (0::nat) = [0,0,0,0]" by (simp add: numeral_eq_Suc)
lemma rep5: "replicate 5 (0::nat) = [0,0,0,0,0]" by (simp add: numeral_eq_Suc)
lemma rep6: "replicate 6 (0::nat) = [0,0,0,0,0,0]" by (simp add: numeral_eq_Suc)

lemma one_worker_call:
  "\<exists>j. 1 \<le> j \<and> j \<le> 6 \<and>
     foldl poolStep \<lparr>p_queue = item # rest, p_workers = [None], p_store = ed\<rparr> (replicate j 0)
       = \<lparr>p_queue = rest, p_workers = [None], p_store = writeJsonl ed item\<rparr>"
proof -
  obtain e d where ed: "ed = (e, d)" by (cases ed)
  show ?thesis
  proof (cases "u_code item \<in> existingCodes e")
    case False
    have "foldl poolStep \<lparr>p_queue = item # rest, p_workers = [None], p_store = ed\<rparr> (replicate 4 0)
       = \<lparr>p_queue = rest, p_workers = [None], p_store = writeJsonl ed item\<rparr>"
      using False by (simp add: rep4 ed poolStep_def writeJsonl_def linesOf_def)
    then show ?thesis by (intro exI [of _ 4]) simp
  next
    case True
    show ?thesis
    proof (cases "jsonl d")
      case None
      have "foldl poolStep \<lparr>p_queue = item # rest, p_workers = [None], p_store = ed\<rparr> (replicate 5 0)
         = \<lparr>p_queue = rest, p_workers = [None], p_store = writeJsonl ed item\<rparr>"
        using True None by (simp add: rep5 ed poolStep_def writeJsonl_def linesOf_def removeUnit_def)
      then show ?thesis by (intro exI [of _ 5]) simp
    next
      case (Some ls)
      have "foldl poolStep \<lparr>p_queue = item # rest, p_workers = [None], p_store = ed\<rparr> (replicate 6 0)
         = \<lparr>p_queue = rest, p_workers = [None], p_store = writeJsonl ed item\<rparr>"
        using True Some by (simp add: rep6 ed poolStep_def writeJsonl_def linesOf_def removeUnit_def)
      then show ?thesis by (intro exI [of _ 6]) simp
    qed
  qed
qed

lemma one_worker_idle:
  "foldl poolStep \<lparr>p_queue = [], p_workers = [None], p_store = ed\<rparr> (replicate n 0)
     = \<lparr>p_queue = [], p_workers = [None], p_store = ed\<rparr>"
  by (induction n) (simp_all add: poolStep_def)

lemma one_worker_serial_aux:
  "6 * length items \<le> n \<Longrightarrow>
   foldl poolStep \<lparr>p_queue = items, p_workers = [None], p_store = ed\<rparr> (replicate n 0)
     = \<lparr>p_queue = [], p_workers = [None], p_store = foldl writeJsonl ed items\<rparr>"
proof (induction items arbitrary: ed n)
  case Nil
  show ?case by (simp add: one_worker_idle)
next
  case (Cons item rest)
  from one_worker_call [of item rest ed] obtain j where j: "1 \<le> j" "j \<le> 6"
    "foldl poolStep \<lparr>p_queue = item # rest, p_workers = [None], p_store = ed\<rparr> (replicate j 0)
       = \<lparr>p_queue = rest, p_workers = [None], p_store = writeJsonl ed item\<rparr>"
    by blast
  from Cons.prems j have n: "n = j + (n - j)" "6 * length rest \<le> n - j" by simp_all
  have "replicate n (0::nat) = replicate j 0 @ replicate (n - j) 0"
    using n(1) by (metis replicate_add)
  then have "foldl poolStep \<lparr>p_queue = item # rest, p_workers = [None], p_store = ed\<rparr> (replicate n 0)
      = foldl poolStep \<lparr>p_queue = rest, p_workers = [None], p_store = writeJsonl ed item\<rparr>
          (replicate (n - j) 0)"
    using j(3) by simp
  also have "\<dots> = \<lparr>p_queue = [], p_workers = [None],
                    p_store = foldl writeJsonl (writeJsonl ed item) rest\<rparr>"
    by (rule Cons.IH [OF n(2)])
  finally show ?case by simp
qed

lemma one_worker_serial:
  "6 * length items \<le> n \<Longrightarrow>
   snd (p_store (concurrentWrites 1 d items (replicate n 0))) = serialRun d items"
  by (simp add: concurrentWrites_def serialRun_def one_worker_serial_aux)

text \<open>
  Claim C2 on the crawl that \<open>syncUnits\<close> of \<open>autoSync.ts\<close> runs, with three workers.
  Two pages of one run give the identifier \<open>Unknown\<close>.  The first worker tests
  \<open>existingCodes\<close> and waits for \<open>appendFile\<close>; before it adds the code, the second
  worker tests \<open>existingCodes\<close> too.  Both append, and the corpus is left with two
  entries for the identifier: no line was removed.  (When the second call starts after the
  first has returned, one entry is left, that of the second.)  In the same way the file
  that \<open>removeUnit\<close> writes back is the one it read: the line that another worker
  appended in between for another identifier is lost.
\<close>

theorem overlapping_writes_keep_two_entries:
  "entries (snd (p_store (concurrentWrites 3 \<lparr>jsonl = None, unitFiles = Map.empty\<rparr>
                            [unknownA, unknownB] [0, 1, 0, 1, 0, 1, 0, 1]))) ''Unknown''
     = [unknownA, unknownB]
   \<and> p_queue (concurrentWrites 3 \<lparr>jsonl = None, unitFiles = Map.empty\<rparr>
                 [unknownA, unknownB] [0, 1, 0, 1, 0, 1, 0, 1]) = []
   \<and> p_workers (concurrentWrites 3 \<lparr>jsonl = None, unitFiles = Map.empty\<rparr>
                   [unknownA, unknownB] [0, 1, 0, 1, 0, 1, 0, 1]) = [None, None, None]
   \<and> entries (snd (p_store (concurrentWrites 3 \<lparr>jsonl = None, unitFiles = Map.empty\<rparr>
                            [unknownA, unknownB] [0, 0, 0, 0, 1, 1, 1, 1, 1, 1]))) ''Unknown''
     = [unknownB]
   \<and> entries (snd (p_store (concurrentWrites 3
                 \<lparr>jsonl = Some [UnitLine (minimalUoc ''MARA022'' ''first title''
                                           ''2025-11-06T08:00:00.000Z'')],
                  unitFiles = Map.empty\<rparr>
                 [minimalUoc ''MARA022'' ''second title'' ''2025-11-07T10:30:01.000Z'',
                  minimalUoc ''MARB027'' ''title'' ''2025-11-07T10:30:02.000Z'']
                 [0, 1, 0, 0, 1, 1, 0, 0, 0, 1]))) ''MARB027''
     = []
   \<and> p_workers (concurrentWrites 3
                 \<lparr>jsonl = Some [UnitLine (minimalUoc ''MARA022'' ''first title''
                                           ''2025-11-06T08:00:00.000Z'')],
                  unitFiles = Map.empty\<rparr>
                 [minimalUoc ''MARA022'' ''second title'' ''2025-11-07T10:30:01.000Z'',
                  minimalUoc ''MARB027'' ''title'' ''2025-11-07T10:30:02.000Z'']
                 [0, 1, 0, 0, 1, 1, 0, 0, 0, 1]) = [None, None, None]"
  by code_simp

section \<open>Properties of the document extractor\<close>

lemma lastRef_snoc:
  "lastRef rel (ls @ [a]) =
     (if rel a then (case linkRef a of Some r \<Rightarrow> Some r | None \<Rightarrow> lastRef rel ls)
      else lastRef rel ls)"
  by (auto simp: lastRef_def split: option.splits list.splits)

lemma foldl_supersessionStep:
  "foldl supersessionStep (None, None) ls = (lastRef isSupersededBy ls, lastRef isSupersedes ls)"
proof (induction ls rule: rev_induct)
  case Nil
  show ?case by (simp add: lastRef_def)
next
  case (snoc a ls)
  have "foldl supersessionStep (None, None) (ls @ [a])
          = supersessionStep (foldl supersessionStep (None, None) ls) a"
    by simp
  also have "\<dots> = supersessionStep (lastRef isSupersededBy ls, lastRef isSupersedes ls) a"
    by (simp only: snoc)
  also have "\<dots> = (lastRef isSupersededBy (ls @ [a]), lastRef isSupersedes (ls @ [a]))"
    by (simp add: supersessionStep_def lastRef_snoc)
  finally show ?case .
qed

text \<open>
  Claim C9, amended to what the code does: the record keeps at most one reference for
  each of the two relations, and for each relation it is the reference of the last link,
  in document order, that carries the phrase of the relation and a code.
\<close>

theorem supersession_last_link_wins:
  "extractSupersession doc
     = (lastRef isSupersededBy (detailLinks doc), lastRef isSupersedes (detailLinks doc))
   \<and> u_supersededBy (parseDocument doc url now) = lastRef isSupersededBy (detailLinks doc)
   \<and> u_supersedes (parseDocument doc url now) = lastRef isSupersedes (detailLinks doc)"
  by (simp add: extractSupersession_def foldl_supersessionStep parseDocument_def
      split: prod.splits)

lemma twoSuccessors_refs:
  "map linkRef (detailLinks twoSuccessors) =
     [Some \<lparr>ref_code = ''MARH013'',
            ref_url = ''https://training.gov.au/training/details/MARH013/unitdetails''\<rparr>,
      Some \<lparr>ref_code = ''MARH014'',
            ref_url = ''https://training.gov.au/training/details/MARH014/unitdetails''\<rparr>]"
  "map isSupersededBy (detailLinks twoSuccessors) = [True, True]"
  "map isSupersedes (detailLinks twoSuccessors) = [False, False]"
  by code_simp+

theorem supersession_last_link_wins_witness:
  "u_supersededBy (parseDocument twoSuccessors ''u'' ''t'')
     = Some \<lparr>ref_code = ''MARH014'',
             ref_url = ''https://training.gov.au/training/details/MARH014/unitdetails''\<rparr>
   \<and> u_supersedes (parseDocument twoSuccessors ''u'' ''t'') = None"
proof -
  obtain a b where ab: "detailLinks twoSuccessors = [a, b]"
    by (simp add: twoSuccessors_def emptyDocument_def)
  show ?thesis
    using supersession_last_link_wins [of twoSuccessors "''u''" "''t''"] twoSuccessors_refs
    unfolding ab by (simp add: lastRef_def)
qed

text \<open>
  Claim C9 as the specification states it (the first matching link wins) fails on a page
  with two links under \<open>Superseded by\<close>: the record keeps the second.
\<close>

theorem supersession_first_link_counterexample:
  "fst (extractSupersession twoSuccessors) \<noteq> firstRef isSupersededBy (detailLinks twoSuccessors)"
proof -
  obtain a b where ab: "detailLinks twoSuccessors = [a, b]"
    by (simp add: twoSuccessors_def emptyDocument_def)
  show ?thesis
    using twoSuccessors_refs
    unfolding extractSupersession_def foldl_supersessionStep ab
    by (simp add: lastRef_def firstRef_def)
qed

lemma rmatch_pos:
  "(j, cs') \<in> set (rmatch ic r s (i, cs)) \<Longrightarrow> i \<le> length s \<Longrightarrow> i \<le> j \<and> j \<le> length s"
proof (induction r arbitrary: i cs j cs')
  case (Str t)
  then have "length (take (length t) (drop i s)) = length t"
    by (auto split: if_splits dest: arg_cong [where f = length])
  with Str show ?case by (auto split: if_splits)
next
  case (Rep c lo hi)
  from rmatch_Rep [OF Rep(1) Rep(2)] show ?case by simp
next
  case (Group g r)
  then show ?case by fastforce
next
  case (Then r1 r2)
  from Then.prems(1) obtain k ck where k: "(k, ck) \<in> set (rmatch ic r1 s (i, cs))"
    "(j, cs') \<in> set (rmatch ic r2 s (k, ck))"
    by auto
  from Then.IH(1) [OF k(1) Then.prems(2)] have "i \<le> k \<and> k \<le> length s" .
  moreover from this Then.IH(2) [OF k(2)] have "k \<le> j \<and> j \<le> length s" by simp
  ultimately show ?case by simp
qed (auto split: if_splits)

lemma codeShape_match:
  assumes "(j, cs') \<in> set (rmatch ic codeShape s (i, cs))" "i \<le> length s"
  shows "cs' = cs \<and> i + 4 \<le> j \<and> j \<le> length s"
proof -
  let ?U = "Rep (Cls [Rng CHR ''A'' CHR ''Z'']) 2 None"
  let ?W = "Rep (Cls [Wrd]) 0 None"
  let ?D = "Rep (Cls [Dgt]) 2 None"
  from assms(1) obtain j1 c1 j2 c2 where
    1: "(j1, c1) \<in> set (rmatch ic ?U s (i, cs))" and
    2: "(j2, c2) \<in> set (rmatch ic ?W s (j1, c1))" and
    3: "(j, cs') \<in> set (rmatch ic ?D s (j2, c2))"
    unfolding codeShape_def seq.simps rmatch_Then_set by fastforce
  from rmatch_Rep [OF 1 assms(2)] have a1: "c1 = cs" "i + 2 \<le> j1" "j1 \<le> length s" by simp_all
  from rmatch_Rep [OF 2 a1(3)] have a2: "c2 = c1" "j1 \<le> j2" "j2 \<le> length s" by simp_all
  from rmatch_Rep [OF 3 a2(3)] have a3: "cs' = c2" "j2 + 2 \<le> j" "j \<le> length s" by simp_all
  show ?thesis using a1 a2 a3 by simp
qed

lemma group_codeShape:
  assumes "(j, cs') \<in> set (rmatch ic (Group g codeShape) s (i, cs))" "i \<le> length s"
  shows "cs' = (g, i, j) # cs \<and> i + 4 \<le> j \<and> j \<le> length s"
proof -
  from assms(1) obtain c0 where "(j, c0) \<in> set (rmatch ic codeShape s (i, cs))" "cs' = (g, i, j) # c0"
    by auto
  with codeShape_match [OF this(1) assms(2)] show ?thesis by simp
qed

lemma rexec_Some_mem:
  assumes "rexec ic r s = Some (a, e, cs)"
  shows "a \<le> length s \<and> (e, cs) \<in> set (rmatch ic r s (a, []))"
proof -
  from rexecFrom_SomeD [OF assms [unfolded rexec_def]]
  have "a \<le> length s" "rmatch ic r s (a, []) \<noteq> []" "(e, cs) = hd (rmatch ic r s (a, []))"
    by simp_all
  then show ?thesis by (metis hd_in_set)
qed

lemma group_text_len:
  "i + 4 \<le> j \<Longrightarrow> j \<le> length s \<Longrightarrow> take (j - i) (drop i s) \<noteq> []"
  by (cases "drop i s") auto

lemma uocHeading_code:
  assumes "rexec True uocHeadingPattern s = Some m"
  shows "groupText s m 1 \<noteq> []"
proof -
  obtain a e cs where m: "m = (a, e, cs)" by (cases m)
  from rexec_Some_mem [OF assms [unfolded m]]
  have a: "a \<le> length s" and mem: "(e, cs) \<in> set (rmatch True uocHeadingPattern s (a, []))"
    by simp_all
  let ?S = "Str ''Unit of Competency:''"
  let ?W = "Rep (Cls [Spc]) 0 None"
  from mem obtain j1 c1 j2 c2 where
    1: "(j1, c1) \<in> set (rmatch True ?S s (a, []))" and
    2: "(j2, c2) \<in> set (rmatch True ?W s (j1, c1))" and
    3: "(e, cs) \<in> set (rmatch True (Group 1 codeShape) s (j2, c2))"
    unfolding uocHeadingPattern_def seq.simps rmatch_Then_set by fastforce
  from rmatch_pos [OF 1 a] have p1: "j1 \<le> length s" by simp
  from rmatch_pos [OF 2 p1] have p2: "j2 \<le> length s" by simp
  from group_codeShape [OF 3 p2] have "cs = (1, j2, e) # c2" "j2 + 4 \<le> e" "e \<le> length s"
    by simp_all
  then have "groupText s m 1 = take (e - j2) (drop j2 s)" "take (e - j2) (drop j2 s) \<noteq> []"
    unfolding m groupText_def by (simp_all add: group_text_len)
  then show ?thesis by simp
qed

lemma codeTitle_code:
  assumes "rexec False codeTitlePattern s = Some m"
  shows "groupText s m 1 \<noteq> []"
proof -
  obtain a e cs where m: "m = (a, e, cs)" by (cases m)
  from rexec_Some_mem [OF assms [unfolded m]]
  have a: "a \<le> length s" and mem: "(e, cs) \<in> set (rmatch False codeTitlePattern s (a, []))"
    by simp_all
  let ?W = "Rep (Cls [Spc]) 0 None"
  let ?H = "Rep (Cls [Chr CHR ''-'']) 0 (Some 1)"
  let ?T = "Rep Dot 1 None"
  from mem obtain j0 c0 j1 c1 j2 c2 j3 c3 j4 c4 j5 c5 where
    0: "(j0, c0) \<in> set (rmatch False Bol s (a, []))" and
    1: "(j1, c1) \<in> set (rmatch False (Group 1 codeShape) s (j0, c0))" and
    2: "(j2, c2) \<in> set (rmatch False ?W s (j1, c1))" and
    3: "(j3, c3) \<in> set (rmatch False ?H s (j2, c2))" and
    4: "(j4, c4) \<in> set (rmatch False ?W s (j3, c3))" and
    5: "(j5, c5) \<in> set (rmatch False (Group 2 ?T) s (j4, c4))" and
    6: "(e, cs) \<in> set (rmatch False Eol s (j5, c5))"
    unfolding codeTitlePattern_def seq.simps rmatch_Then_set by fastforce
  from 0 have z: "j0 = 0" "c0 = []" by (auto split: if_splits)
  from group_codeShape [OF 1] z have g1: "c1 = [(1, 0, j1)]" "4 \<le> j1" "j1 \<le> length s"
    by simp_all
  from rmatch_Rep [OF 2 g1(3)] have a2: "c2 = c1" "j2 \<le> length s" by simp_all
  from rmatch_Rep [OF 3 a2(2)] have a3: "c3 = c2" "j3 \<le> length s" by simp_all
  from rmatch_Rep [OF 4 a3(2)] have a4: "c4 = c3" "j4 \<le> length s" by simp_all
  from 5 obtain c where "(j5, c) \<in> set (rmatch False ?T s (j4, c4))" "c5 = (2, j4, j5) # c"
    by auto
  with rmatch_Rep [OF this(1) a4(2)] have a5: "c5 = (2, j4, j5) # c4" by simp
  from 6 have a6: "cs = c5" by (auto split: if_splits)
  have "cs = [(2, j4, j5), (1, 0, j1)]" using a6 a5 a4 a3 a2 g1 by simp
  then have "groupText s m 1 = take (j1 - 0) (drop 0 s)"
    unfolding m groupText_def by simp
  moreover have "take (j1 - 0) (drop 0 s) \<noteq> []"
    using g1 by (intro group_text_len) simp_all
  ultimately show ?thesis by simp
qed

lemma extractCodeAndTitle_code: "fst (extractCodeAndTitle doc) \<noteq> []"
proof (cases "0 < heroCount doc \<and> trim (heroStrong doc) \<noteq> [] \<and> trim (heroText doc) \<noteq> []")
  case True
  then show ?thesis by (simp add: extractCodeAndTitle_def Let_def)
next
  case False
  show ?thesis
  proof (cases "rexec True uocHeadingPattern (trim (h1Text doc))")
    case (Some m)
    with False uocHeading_code [OF Some] show ?thesis
      by (simp add: extractCodeAndTitle_def Let_def)
  next
    case None
    show ?thesis
    proof (cases "rexec False codeTitlePattern (trim (h1Text doc))")
      case (Some m)
      with False None codeTitle_code [OF Some] show ?thesis
        by (simp add: extractCodeAndTitle_def Let_def)
    next
      case n: None
      with False None show ?thesis
        by (simp add: extractCodeAndTitle_def Let_def)
    qed
  qed
qed

lemma parsed_code_not_empty: "u_code (parseDocument doc url now) \<noteq> []"
  using extractCodeAndTitle_code [of doc]
  by (cases "extractCodeAndTitle doc") (auto simp: parseDocument_def split: prod.splits)

lemma extractCodeAndTitle_default:
  "noIdentityStrategy doc \<Longrightarrow> extractCodeAndTitle doc = (''Unknown'', ''Unknown'')"
  by (auto simp: noIdentityStrategy_def extractCodeAndTitle_def Let_def)

lemma emptyDocument_no_strategy: "noIdentityStrategy emptyDocument"
  by code_simp

lemma parse_emptyDocument:
  "parseDocument emptyDocument url now =
     \<lparr> u_url = url, u_code = ''Unknown'', u_title = ''Unknown'',
       u_status = None, u_release = None, u_application = None, u_unitSector = None,
       u_licensingOrRegulatoryInfo = None, u_prerequisites = None, u_elements = None,
       u_foundationSkills = None, u_assessmentConditions = None, u_performanceEvidence = None,
       u_knowledgeEvidence = None, u_description = None, u_supersededBy = None,
       u_supersedes = None, u_sections = None, u_lastFetchedAt = now \<rparr>"
proof -
  have r: "rexec True releasePattern [] = None" by code_simp
  show ?thesis
    using extractCodeAndTitle_default [OF emptyDocument_no_strategy] r
    by (simp add: parseDocument_def extractStatus_def extractSupersession_def
        extractPrerequisites_def emptyDocument_def)
qed

text \<open>
  Claim C7: for every string and every URL \<open>parseUocHtml\<close> yields a record, with the
  URL, the time of the extraction and an identifier that is not empty; the source has no
  \<open>throw\<close> and tests every match before it reads a group, so the model has no error
  branch.  When no identity strategy matches, the identifier and the title are both
  \<open>Unknown\<close>.  Every other field may be absent: on the document of the empty string all
  of them are.
\<close>

theorem extractor_total_unknown_default:
  "u_url (parseUocHtml load html url now) = url
   \<and> u_lastFetchedAt (parseUocHtml load html url now) = now
   \<and> u_code (parseUocHtml load html url now) \<noteq> []
   \<and> (noIdentityStrategy (load html) \<longrightarrow>
        u_code (parseUocHtml load html url now) = ''Unknown''
        \<and> u_title (parseUocHtml load html url now) = ''Unknown'')
   \<and> parseDocument emptyDocument url now =
     \<lparr> u_url = url, u_code = ''Unknown'', u_title = ''Unknown'',
       u_status = None, u_release = None, u_application = None, u_unitSector = None,
       u_licensingOrRegulatoryInfo = None, u_prerequisites = None, u_elements = None,
       u_foundationSkills = None, u_assessmentConditions = None, u_performanceEvidence = None,
       u_knowledgeEvidence = None, u_description = None, u_supersededBy = None,
       u_supersedes = None, u_sections = None, u_lastFetchedAt = now \<rparr>"
proof (intro conjI impI)
  show "u_url (parseUocHtml load html url now) = url"
    "u_lastFetchedAt (parseUocHtml load html url now) = now"
    by (simp_all add: parseUocHtml_def parseDocument_def split: prod.splits)
  show "u_code (parseUocHtml load html url now) \<noteq> []"
    unfolding parseUocHtml_def by (rule parsed_code_not_empty)
  show "parseDocument emptyDocument url now =
     \<lparr> u_url = url, u_code = ''Unknown'', u_title = ''Unknown'',
       u_status = None, u_release = None, u_application = None, u_unitSector = None,
       u_licensingOrRegulatoryInfo = None, u_prerequisites = None, u_elements = None,
       u_foundationSkills = None, u_assessmentConditions = None, u_performanceEvidence = None,
       u_knowledgeEvidence = None, u_description = None, u_supersededBy = None,
       u_supersedes = None, u_sections = None, u_lastFetchedAt = now \<rparr>"
    by (rule parse_emptyDocument)
next
  assume "noIdentityStrategy (load html)"
  from extractCodeAndTitle_default [OF this]
  show "u_code (parseUocHtml load html url now) = ''Unknown''"
    "u_title (parseUocHtml load html url now) = ''Unknown''"
    by (simp_all add: parseUocHtml_def parseDocument_def split: prod.splits)
qed

theorem extractor_total_unknown_default_witness:
  "noIdentityStrategy emptyDocument
   \<and> u_code (parseUocHtml (\<lambda>html. emptyDocument) [] ''https://training.gov.au/training/details/X/unitdetails''
        ''2025-11-07T10:30:00.000Z'') = ''Unknown''
   \<and> u_title (parseUocHtml (\<lambda>html. emptyDocument) [] ''https://training.gov.au/training/details/X/unitdetails''
        ''2025-11-07T10:30:00.000Z'') = ''Unknown''"
  using extractor_total_unknown_default [of "\<lambda>html. emptyDocument" "[]"
      "''https://training.gov.au/training/details/X/unitdetails''" "''2025-11-07T10:30:00.000Z''"]
    emptyDocument_no_strategy
  by simp

section \<open>Properties of the cached fetcher and of the whole run\<close>

lemma count_attemptEvents:
  "count_list (concat (map (attemptEvents url b n) ks)) (PoliteDelay u) = 0"
  by (induction ks) (simp_all add: attemptEvents_def)

lemma Fetcher_get_effect:
  fixes f :: "'a Fetcher_scheme" and page :: "nat \<Rightarrow> jsError + string"
  shows "\<exists>evs. fst (Fetcher_get f url page) = f\<lparr>trace := trace f @ PoliteDelay url # evs\<rparr>
               \<and> (\<forall>u. count_list evs (PoliteDelay u) = 0)"
proof (cases rule: Fetcher_get_cases [where f = f and page = page])
  case none
  then show ?thesis
    by (intro exI [of _ "[]"]) (simp add: Fetcher_get_no_attempts)
next
  case fail
  have "Fetcher_get f url page =
     (f\<lparr>trace := trace f @ PoliteDelay url #
          concat (map (attemptEvents url (backoffMs f) (maxRetries f)) [1 ..< maxRetries f + 1])\<rparr>,
      Inl (Error (''FetchFailed:''
                   @ ErrorType_string (classifyError (Some (projl (page (maxRetries f)))))
                   @ '':'' @ errMsg (Some (projl (page (maxRetries f)))))))"
    using fail by (intro Fetcher_get_all_fail) auto
  then show ?thesis
    by (intro exI [of _ "concat (map (attemptEvents url (backoffMs f) (maxRetries f)) [1 ..< maxRetries f + 1])"])
       (simp add: count_attemptEvents del: upt_Suc)
next
  case (succ s html)
  have "Fetcher_get f url page =
     (f\<lparr>trace := trace f @ PoliteDelay url #
          concat (map (attemptEvents url (backoffMs f) (maxRetries f)) [1 ..< s]) @ [Goto url s]\<rparr>,
      Inr html)"
    using succ by (intro Fetcher_get_first_success) auto
  then show ?thesis
    by (intro exI [of _ "concat (map (attemptEvents url (backoffMs f) (maxRetries f)) [1 ..< s]) @ [Goto url s]"])
       (simp add: count_attemptEvents del: upt_Suc)
qed

lemma CachedFetcher_get_effect:
  "cache (fst (CachedFetcher_get f url page)) = cache f
   \<and> networkGets (trace (fst (CachedFetcher_get f url page))) u
       = networkGets (trace f) u + (if cache f url = None \<and> u = url then 1 else 0)"
proof (cases "cache f url")
  case (Some h)
  then show ?thesis by (simp add: CachedFetcher_get_def)
next
  case None
  from Fetcher_get_effect [of f url page] obtain evs where
    e: "fst (Fetcher_get f url page) = f\<lparr>trace := trace f @ PoliteDelay url # evs\<rparr>"
    and c: "\<forall>u. count_list evs (PoliteDelay u) = 0"
    by blast
  show ?thesis
    using None c by (simp add: CachedFetcher_get_def e networkGets_def)
qed

lemma CachedFetcher_get_hit:
  "cache f url = Some h \<Longrightarrow> CachedFetcher_get f url page = (f, Inr h)"
  by (simp add: CachedFetcher_get_def)

lemma applyOps_cache:
  assumes "cache f u = Some h" and "\<forall>h'. OpSetCache u h' \<in> set ops \<longrightarrow> h' = h"
  shows "cache (applyOps f ops) u = Some h"
  using assms
proof (induction ops arbitrary: f)
  case Nil
  then show ?case by (simp add: applyOps_def)
next
  case (Cons op ops)
  have "cache (applyOp f op) u = Some h"
    using Cons.prems by (cases op) (auto simp: setCache_def CachedFetcher_get_effect)
  from Cons.IH [OF this] Cons.prems(2) show ?case
    by (simp add: applyOps_def)
qed

lemma unitUrl_inj: "unitUrl c = unitUrl c' \<longleftrightarrow> c = c'"
  by (simp add: unitUrl_def)

lemma distinct_uniq: "distinct (uniq xs)"
  by (induction xs rule: uniq.induct) (auto simp: set_uniq)

lemma distinct_queue:
  "distinct rs \<Longrightarrow> distinct (allUnitsToProcess (planUnits rs ex pe m))"
  by (auto simp: allUnitsToProcess_def planUnits_filter)

lemma categorizeError_fetcher:
  "fetcher (categorizeError pe now st c err) = fetcher st"
  "validUnits (categorizeError pe now st c err) = validUnits st"
  by (simp_all add: categorizeError_def Let_def)

lemma checkUnit_effect:
  "networkGets (trace (fetcher (checkUnit pe net now st c))) u
     = networkGets (trace (fetcher st)) u
       + (if cache (fetcher st) (unitUrl c) = None \<and> u = unitUrl c then 1 else 0)"
  "cache (fetcher st) v \<noteq> None \<Longrightarrow> cache (fetcher (checkUnit pe net now st c)) v \<noteq> None"
  "validUnits (checkUnit pe net now st c) = validUnits st
   \<or> (validUnits (checkUnit pe net now st c) = validUnits st @ [c]
       \<and> cache (fetcher (checkUnit pe net now st c)) (unitUrl c) \<noteq> None)"
proof -
  obtain f r where g: "CachedFetcher_get (fetcher st) (unitUrl c) (net (unitUrl c)) = (f, r)"
    by (cases "CachedFetcher_get (fetcher st) (unitUrl c) (net (unitUrl c))")
  from CachedFetcher_get_effect [of "fetcher st" "unitUrl c" "net (unitUrl c)"] g
  have e: "cache f = cache (fetcher st)"
    "\<And>u. networkGets (trace f) u = networkGets (trace (fetcher st)) u
       + (if cache (fetcher st) (unitUrl c) = None \<and> u = unitUrl c then 1 else 0)"
    by simp_all
  have tr: "trace (fetcher (checkUnit pe net now st c)) = trace f"
    by (cases r) (simp_all add: checkUnit_def g Let_def categorizeError_fetcher setCache_def)
  show "networkGets (trace (fetcher (checkUnit pe net now st c))) u
     = networkGets (trace (fetcher st)) u
       + (if cache (fetcher st) (unitUrl c) = None \<and> u = unitUrl c then 1 else 0)"
    unfolding tr by (rule e(2))
  show "cache (fetcher st) v \<noteq> None \<Longrightarrow> cache (fetcher (checkUnit pe net now st c)) v \<noteq> None"
    using e(1)
    by (cases r) (auto simp: checkUnit_def g Let_def categorizeError_fetcher setCache_def)
  show "validUnits (checkUnit pe net now st c) = validUnits st
   \<or> (validUnits (checkUnit pe net now st c) = validUnits st @ [c]
       \<and> cache (fetcher (checkUnit pe net now st c)) (unitUrl c) \<noteq> None)"
    by (cases r) (simp_all add: checkUnit_def g Let_def categorizeError_fetcher setCache_def)
qed

lemma validateUnits_inv:
  assumes "distinct queue"
    and "\<forall>c. networkGets (trace (fetcher st)) (unitUrl c) \<le> 1"
    and "\<forall>c \<in> set queue. networkGets (trace (fetcher st)) (unitUrl c) = 0"
    and "\<forall>c \<in> set (validUnits st). cache (fetcher st) (unitUrl c) \<noteq> None"
  shows "(\<forall>c. networkGets (trace (fetcher (validateUnits pe net now st queue))) (unitUrl c) \<le> 1)
       \<and> (\<forall>c \<in> set (validUnits (validateUnits pe net now st queue)).
             cache (fetcher (validateUnits pe net now st queue)) (unitUrl c) \<noteq> None)"
  using assms
proof (induction queue arbitrary: st)
  case Nil
  then show ?case by (simp add: validateUnits_def)
next
  case (Cons c queue)
  let ?st = "checkUnit pe net now st c"
  have 1: "\<forall>c'. networkGets (trace (fetcher ?st)) (unitUrl c') \<le> 1"
    using Cons.prems(2,3) by (auto simp: checkUnit_effect(1) unitUrl_inj)
  have 2: "\<forall>c' \<in> set queue. networkGets (trace (fetcher ?st)) (unitUrl c') = 0"
    using Cons.prems(1,3) by (auto simp: checkUnit_effect(1) unitUrl_inj)
  have 3: "\<forall>c' \<in> set (validUnits ?st). cache (fetcher ?st) (unitUrl c') \<noteq> None"
    using Cons.prems(4) checkUnit_effect(2) [of st _ pe net now c]
      checkUnit_effect(3) [of pe net now st c]
    by auto
  from Cons.prems(1) have d: "distinct queue" by simp
  from Cons.IH [OF d 1 2 3] show ?case
    by (simp add: validateUnits_def)
qed

lemma crawl_all_cached:
  assumes "\<forall>u \<in> set urls. cache (c_fetcher st) u \<noteq> None"
  shows "c_fetcher (foldl (crawlStep load net now) st urls) = c_fetcher st"
  using assms
proof (induction urls arbitrary: st)
  case Nil
  show ?case by simp
next
  case (Cons u urls)
  from Cons.prems obtain h where h: "cache (c_fetcher st) u = Some h" by auto
  have s: "c_fetcher (crawlStep load net now st u) = c_fetcher st"
    by (simp add: crawlStep_def CachedFetcher_get_hit [OF h])
  from Cons.IH [of "crawlStep load net now st u"] Cons.prems s show ?case
    by simp
qed

lemma initial_trace:
  "trace (fetcher initialSyncState) = []" "validUnits initialSyncState = []"
  by (simp_all add: initialSyncState_def newCachedFetcher_def newFetcher_def Fetcher.extend_def)

lemma syncUnits_network_once:
  assumes "syncUnits inputExcel inputColumn existingUnits logFile config net load now d = Inr out"
  shows "networkGets (out_trace out) (unitUrl c) \<le> 1"
proof -
  from assms obtain rs where rs: "readUnitCodesFromExcel inputExcel inputColumn = Inr rs"
    by (cases "readUnitCodesFromExcel inputExcel inputColumn") (auto simp: syncUnits_def)
  then have drs: "distinct rs"
    by (auto simp: readUnitCodesFromExcel_def distinct_uniq split: option.splits)
  let ?pe = "loadPreviousErrors logFile now"
  let ?q = "allUnitsToProcess (planUnits rs existingUnits ?pe (syncMaxRetries config))"
  let ?st = "validateUnits ?pe net now initialSyncState ?q"
  have inv: "(\<forall>c. networkGets (trace (fetcher ?st)) (unitUrl c) \<le> 1)
       \<and> (\<forall>c \<in> set (validUnits ?st). cache (fetcher ?st) (unitUrl c) \<noteq> None)"
    by (rule validateUnits_inv [OF distinct_queue [OF drs]])
       (simp_all add: initial_trace networkGets_def)
  have cached: "\<forall>u \<in> set (uniq (map unitUrl (validUnits ?st))). cache (fetcher ?st) u \<noteq> None"
    using inv by (auto simp: set_uniq)
  have crawl: "c_fetcher (crawlUocUrls load net now (fetcher ?st) (newExportService, d)
                 (Some (saveErrorLog ?st)) (map unitUrl (validUnits ?st))) = fetcher ?st"
    unfolding crawlUocUrls_def using crawl_all_cached [of _ _ load net now] cached by simp
  have "out_trace out = [] \<or> out_trace out = trace (fetcher ?st)"
    using assms rs crawl by (auto simp: syncUnits_def Let_def split: if_splits)
  then show ?thesis
    using inv by (auto simp: networkGets_def)
qed

lemma oneCell_run:
  "(case syncUnits (Some oneCellBook) [] Map.empty None \<lparr>sc_maxRetries = None\<rparr> onePageNet
           (\<lambda>html. emptyDocument) ''2025-11-07T10:30:00.000Z'' \<lparr>jsonl = None, unitFiles = Map.empty\<rparr> of
      Inr out \<Rightarrow> (out_valid out, out_trace out)
    | Inl e \<Rightarrow> ([], []))
   = ([''MARA022''],
      [PoliteDelay ''https://training.gov.au/training/details/MARA022/unitdetails'',
       Goto ''https://training.gov.au/training/details/MARA022/unitdetails'' 1])"
  by code_simp

text \<open>
  Claim C10: after \<open>setCache(u, h)\<close>, and whatever calls of \<open>get\<close> and of
  \<open>setCache\<close> follow that do not store another text for \<open>u\<close>, a \<open>get(u)\<close> returns
  \<open>h\<close> and leaves the fetcher as it is: no polite delay, no page load.  In a run of
  \<open>syncUnits\<close> the path to the network is taken at most once for the page of every valid
  code: validation fetches it and stores it, and the crawl reads it from the cache.
\<close>

theorem cached_get_after_setCache:
  "((\<forall>h'. OpSetCache u h' \<in> set ops \<longrightarrow> h' = h) \<longrightarrow>
      CachedFetcher_get (applyOps (setCache f u h) ops) u page
        = (applyOps (setCache f u h) ops, Inr h))
   \<and> (\<forall>out c. syncUnits inputExcel inputColumn existingUnits logFile config net load now d = Inr out
          \<and> c \<in> set (out_valid out) \<longrightarrow>
        networkGets (out_trace out) (unitUrl c) \<le> 1)"
proof (intro conjI impI allI)
  assume a: "\<forall>h'. OpSetCache u h' \<in> set ops \<longrightarrow> h' = h"
  have "cache (setCache f u h) u = Some h" by (simp add: setCache_def)
  from applyOps_cache [OF this a]
  show "CachedFetcher_get (applyOps (setCache f u h) ops) u page
        = (applyOps (setCache f u h) ops, Inr h)"
    by (rule CachedFetcher_get_hit)
next
  fix out c
  assume "syncUnits inputExcel inputColumn existingUnits logFile config net load now d = Inr out
          \<and> c \<in> set (out_valid out)"
  then show "networkGets (out_trace out) (unitUrl c) \<le> 1"
    using syncUnits_network_once by blast
qed

theorem cached_get_after_setCache_witness:
  "CachedFetcher_get
     (applyOps (setCache (newCachedFetcher None) ''u'' ''<html></html>'')
        [OpSetCache ''v'' ''x'', OpGet ''u'' (\<lambda>k. Inl (Error ''offline''))])
     ''u'' (\<lambda>k. Inl (Error ''offline''))
   = (applyOps (setCache (newCachedFetcher None) ''u'' ''<html></html>'')
        [OpSetCache ''v'' ''x'', OpGet ''u'' (\<lambda>k. Inl (Error ''offline''))],
      Inr ''<html></html>'')
   \<and> (case syncUnits (Some oneCellBook) [] Map.empty None \<lparr>sc_maxRetries = None\<rparr> onePageNet
           (\<lambda>html. emptyDocument) ''2025-11-07T10:30:00.000Z'' \<lparr>jsonl = None, unitFiles = Map.empty\<rparr> of
        Inr out \<Rightarrow> ''MARA022'' \<in> set (out_valid out)
                   \<and> networkGets (out_trace out) (unitUrl ''MARA022'') \<le> 1
      | Inl e \<Rightarrow> False)"
proof -
  let ?run = "syncUnits (Some oneCellBook) [] Map.empty None \<lparr>sc_maxRetries = None\<rparr> onePageNet
           (\<lambda>html. emptyDocument) ''2025-11-07T10:30:00.000Z'' \<lparr>jsonl = None, unitFiles = Map.empty\<rparr>"
  from oneCell_run obtain out where out: "?run = Inr out" "out_valid out = [''MARA022'']"
    by (cases ?run) auto
  have h: "\<forall>h'. OpSetCache ''u'' h' \<in> set [OpSetCache ''v'' ''x'', OpGet ''u'' (\<lambda>k. Inl (Error ''offline''))]
             \<longrightarrow> h' = ''<html></html>''"
    by simp
  note t = cached_get_after_setCache [of "''u''"
      "[OpSetCache ''v'' ''x'', OpGet ''u'' (\<lambda>k. Inl (Error ''offline''))]" "''<html></html>''"
      "newCachedFetcher None" "\<lambda>k. Inl (Error ''offline'')"
      "Some oneCellBook" "[]" Map.empty None "\<lparr>sc_maxRetries = None\<rparr>" onePageNet
      "\<lambda>html. emptyDocument" "''2025-11-07T10:30:00.000Z''" "\<lparr>jsonl = None, unitFiles = Map.empty\<rparr>"]
  from t h have 1: "CachedFetcher_get
     (applyOps (setCache (newCachedFetcher None) ''u'' ''<html></html>'')
        [OpSetCache ''v'' ''x'', OpGet ''u'' (\<lambda>k. Inl (Error ''offline''))])
     ''u'' (\<lambda>k. Inl (Error ''offline''))
   = (applyOps (setCache (newCachedFetcher None) ''u'' ''<html></html>'')
        [OpSetCache ''v'' ''x'', OpGet ''u'' (\<lambda>k. Inl (Error ''offline''))],
      Inr ''<html></html>'')"
    by blast
  from t out have 2: "networkGets (out_trace out) (unitUrl ''MARA022'') \<le> 1"
    by simp
  show ?thesis
    using 1 2 out by simp
qed

end
